theory Spec2Isabelle
  imports Complex_Main
begin

section \<open>Python values of the timing notebooks\<close>

text \<open>
  The notebooks define sixteen pure-Python stand-ins for the fastnumbers functions:
  for each of \<open>fast_int\<close>, \<open>fast_float\<close>, \<open>fast_real\<close>, \<open>fast_forceint\<close>,
  \<open>isint\<close>, \<open>isfloat\<close>, \<open>isreal\<close> and \<open>isintlike\<close> one function built on a
  regular expression (suffix \<open>_re\<close>) and one built on try/except (suffix \<open>_try\<close>).
  They are embedded below, together with the part of the Python 3 builtins \<open>int\<close>,
  \<open>float\<close>, \<open>type\<close> and \<open>re.match\<close> that they call.

  The objects are those the notebooks and their callers hand to these functions:
  integers, floats, text, None and lists. Text is a list of 8-bit characters read as
  ASCII. An exception is the left injection of a sum, a returned object the right one.
\<close>

datatype pyerr = TypeError | ValueError | OverflowError

text \<open>
  A float is a sign and a non-negative magnitude (so that \<open>-0.0\<close> and \<open>0.0\<close>
  differ), an infinity, or NaN.
\<close>

datatype pyfloat = Finite bool rat | Infinity bool | NaN

datatype pyval = PInt int | PFloat pyfloat | PStr string | PNone | PList "pyval list"

datatype pytype = TInt | TFloat | TStr | TNoneType | TList

fun py_type :: "pyval \<Rightarrow> pytype" where
  "py_type (PInt _) = TInt"
| "py_type (PFloat _) = TFloat"
| "py_type (PStr _) = TStr"
| "py_type PNone = TNoneType"
| "py_type (PList _) = TList"

definition bind_res :: "pyerr + 'a \<Rightarrow> ('a \<Rightarrow> pyerr + 'b) \<Rightarrow> pyerr + 'b" where
  "bind_res m f = (case m of Inl e \<Rightarrow> Inl e | Inr v \<Rightarrow> f v)"

text \<open>\<open>try: body except e: handler\<close>: only the named exception is caught.\<close>

definition catch :: "pyerr \<Rightarrow> pyerr + 'a \<Rightarrow> pyerr + 'a \<Rightarrow> pyerr + 'a" where
  "catch e body handler =
     (case body of Inl e' \<Rightarrow> if e' = e then handler else Inl e' | Inr v \<Rightarrow> Inr v)"

section \<open>Characters and digit strings\<close>

definition is_digit :: "char \<Rightarrow> bool" where
  "is_digit c = (c \<in> set ''0123456789'')"

text \<open>The whitespace that \<open>int\<close> and \<open>float\<close> strip from ASCII text.\<close>

definition is_space :: "char \<Rightarrow> bool" where
  "is_space c = (c \<in> set [CHR '' '', CHR 0x09, CHR 0x0A, CHR 0x0B, CHR 0x0C, CHR 0x0D])"

definition digit_val :: "char \<Rightarrow> nat" where
  "digit_val c =
     (case map_of (zip ''0123456789'' [0, 1, 2, 3, 4, 5, 6, 7, 8, 9]) c of
        Some d \<Rightarrow> d | None \<Rightarrow> 0)"

definition dec_value :: "string \<Rightarrow> nat" where
  "dec_value s = foldl (\<lambda>a c. 10 * a + digit_val c) 0 s"

definition is_digits :: "string \<Rightarrow> bool" where
  "is_digits s = (s \<noteq> [] \<and> list_all is_digit s)"

definition lower_char :: "char \<Rightarrow> char" where
  "lower_char c =
     (case map_of (zip ''ABCDEFGHIJKLMNOPQRSTUVWXYZ'' ''abcdefghijklmnopqrstuvwxyz'') c of
        Some l \<Rightarrow> l | None \<Rightarrow> c)"

definition strip :: "string \<Rightarrow> string" where
  "strip s = rev (dropWhile is_space (rev (dropWhile is_space s)))"

text \<open>
  From Python 3.6 on a single underscore may stand between two digits. \<open>float\<close>
  copies the text without its underscores, remembering the previous character, and
  gives up on an underscore that does not follow a digit or is not followed by one.
  \<open>int\<close> refuses the same underscores while it scans (a leading, a trailing and a
  doubled one, and every character that is not a digit ends the digits), so the same
  preparation serves both.
\<close>

fun drop_underscores :: "char \<Rightarrow> string \<Rightarrow> string option" where
  "drop_underscores prev [] = (if prev = CHR ''_'' then None else Some [])"
| "drop_underscores prev (c # cs) =
     (if c = CHR ''_''
      then (if is_digit prev then drop_underscores c cs else None)
      else if prev = CHR ''_'' \<and> \<not> is_digit c then None
      else map_option ((#) c) (drop_underscores c cs))"

text \<open>
  \<open>us\<close> tells whether the interpreter accepts underscores: true for the notebook run
  on Python 3.6, false for the one run on Python 3.5.
\<close>

definition prepare :: "bool \<Rightarrow> string \<Rightarrow> string option" where
  "prepare us s = (if us then map_option strip (drop_underscores (CHR 0x00) s) else Some (strip s))"

definition split_sign :: "string \<Rightarrow> bool \<times> string" where
  "split_sign s =
     (case s of
        [] \<Rightarrow> (False, [])
      | c # r \<Rightarrow> if c = CHR ''-'' then (True, r) else if c = CHR ''+'' then (False, r) else (False, s))"

section \<open>The builtin \<open>int\<close>\<close>

definition py_int_str :: "bool \<Rightarrow> string \<Rightarrow> int option" where
  "py_int_str us s =
     (case prepare us s of
        None \<Rightarrow> None
      | Some t \<Rightarrow>
          (case split_sign t of
             (neg, r) \<Rightarrow>
               if is_digits r
               then Some (if neg then - int (dec_value r) else int (dec_value r))
               else None))"

text \<open>\<open>int\<close> of a float truncates toward zero; an infinity or NaN has no integer.\<close>

fun float_to_int :: "pyfloat \<Rightarrow> pyerr + int" where
  "float_to_int (Finite neg r) = Inr (if neg then - \<lfloor>r\<rfloor> else \<lfloor>r\<rfloor>)"
| "float_to_int (Infinity _) = Inl OverflowError"
| "float_to_int NaN = Inl ValueError"

fun py_int :: "bool \<Rightarrow> pyval \<Rightarrow> pyerr + int" where
  "py_int us (PInt n) = Inr n"
| "py_int us (PFloat f) = float_to_int f"
| "py_int us (PStr s) = (case py_int_str us s of None \<Rightarrow> Inl ValueError | Some n \<Rightarrow> Inr n)"
| "py_int us PNone = Inl TypeError"
| "py_int us (PList _) = Inl TypeError"

section \<open>The builtin \<open>float\<close>\<close>

text \<open>\<open>bit_length\<close> is Python's \<open>int.bit_length\<close>.\<close>

fun bit_length :: "nat \<Rightarrow> nat" where
  "bit_length n = (if n = 0 then 0 else Suc (bit_length (n div 2)))"

declare bit_length.simps [simp del]

definition pow2 :: "int \<Rightarrow> rat" where
  "pow2 k = (if 0 \<le> k then 2 ^ nat k else 1 / 2 ^ nat (- k))"

text \<open>
  \<open>ilog2 n d\<close> is the binary exponent of the positive fraction \<open>n / d\<close>: the
  integer \<open>e\<close> with \<open>2 ^ e \<le> n / d < 2 ^ (e + 1)\<close>.
\<close>

definition ilog2 :: "nat \<Rightarrow> nat \<Rightarrow> int" where
  "ilog2 n d =
     (let k = int (bit_length n) - int (bit_length d)
      in if (if 0 \<le> k then d * 2 ^ nat k \<le> n else d \<le> n * 2 ^ nat (- k)) then k else k - 1)"

text \<open>Integer division rounded to nearest, ties to the even quotient.\<close>

definition div_half_even :: "nat \<Rightarrow> nat \<Rightarrow> nat" where
  "div_half_even n d =
     (let q = n div d; r = n mod d
      in if 2 * r < d then q else if d < 2 * r then q + 1 else if even q then q else q + 1)"

text \<open>
  The IEEE 754 double nearest to \<open>n / d\<close> (\<open>d > 0\<close>), ties to even: 53 significant
  bits, the least exponent \<open>-1074\<close>, and an infinity from \<open>2 ^ 1024\<close> on.
\<close>

definition round_ratio :: "bool \<Rightarrow> nat \<Rightarrow> nat \<Rightarrow> pyfloat" where
  "round_ratio neg n d =
     (if n = 0 then Finite neg 0
      else
        let p = max (ilog2 n d - 52) (- 1074);
            m = (if 0 \<le> p then div_half_even n (d * 2 ^ nat p)
                 else div_half_even (n * 2 ^ nat (- p)) d)
        in if 2 ^ 1024 \<le> rat_of_nat m * pow2 p then Infinity neg
           else Finite neg (rat_of_nat m * pow2 p))"

text \<open>The double nearest to \<open>D * 10 ^ E\<close>.\<close>

definition dec_to_double :: "bool \<Rightarrow> nat \<Rightarrow> int \<Rightarrow> pyfloat" where
  "dec_to_double neg D E =
     (if 0 \<le> E then round_ratio neg (D * 10 ^ nat E) 1 else round_ratio neg D (10 ^ nat (- E)))"

definition parse_exponent :: "string \<Rightarrow> int option" where
  "parse_exponent r =
     (case r of
        [] \<Rightarrow> Some 0
      | c # t \<Rightarrow>
          if c = CHR ''e'' \<or> c = CHR ''E''
          then (case split_sign t of
                  (eneg, ed) \<Rightarrow>
                    if is_digits ed
                    then Some (if eneg then - int (dec_value ed) else int (dec_value ed))
                    else None)
          else None)"

text \<open>
  A decimal literal: digits, an optional point with more digits, an optional exponent;
  the digits before or after the point may be missing, not both.
\<close>

definition parse_decimal :: "bool \<Rightarrow> string \<Rightarrow> pyfloat option" where
  "parse_decimal neg r =
     (let ip = takeWhile is_digit r;
          r1 = dropWhile is_digit r;
          fp = (case r1 of [] \<Rightarrow> [] | c # t \<Rightarrow> if c = CHR ''.'' then takeWhile is_digit t else []);
          r2 = (case r1 of [] \<Rightarrow> [] | c # t \<Rightarrow> if c = CHR ''.'' then dropWhile is_digit t else r1)
      in if ip = [] \<and> fp = [] then None
         else (case parse_exponent r2 of
                 None \<Rightarrow> None
               | Some e \<Rightarrow> Some (dec_to_double neg (dec_value (ip @ fp)) (e - int (length fp)))))"

definition parse_float :: "string \<Rightarrow> pyfloat option" where
  "parse_float t =
     (case split_sign t of
        (neg, r) \<Rightarrow>
          if map lower_char r = ''inf'' \<or> map lower_char r = ''infinity'' then Some (Infinity neg)
          else if map lower_char r = ''nan'' then Some NaN
          else parse_decimal neg r)"

definition py_float_str :: "bool \<Rightarrow> string \<Rightarrow> pyfloat option" where
  "py_float_str us s = (case prepare us s of None \<Rightarrow> None | Some t \<Rightarrow> parse_float t)"

text \<open>\<open>float\<close> of an integer rounds to the nearest double and overflows past the largest.\<close>

definition int_to_float :: "int \<Rightarrow> pyerr + pyfloat" where
  "int_to_float n =
     (case round_ratio (n < 0) (nat \<bar>n\<bar>) 1 of
        Infinity _ \<Rightarrow> Inl OverflowError
      | f \<Rightarrow> Inr f)"

fun py_float :: "bool \<Rightarrow> pyval \<Rightarrow> pyerr + pyfloat" where
  "py_float us (PInt n) = int_to_float n"
| "py_float us (PFloat f) = Inr f"
| "py_float us (PStr s) = (case py_float_str us s of None \<Rightarrow> Inl ValueError | Some f \<Rightarrow> Inr f)"
| "py_float us PNone = Inl TypeError"
| "py_float us (PList _) = Inl TypeError"

text \<open>\<open>a == b\<close> for a float \<open>a\<close> and an integer \<open>b\<close> compares the exact values.\<close>

fun float_eq_int :: "pyfloat \<Rightarrow> int \<Rightarrow> bool" where
  "float_eq_int (Finite neg r) b = ((if neg then - r else r) = of_int b)"
| "float_eq_int (Infinity _) b = False"
| "float_eq_int NaN b = False"

text \<open>\<open>float.is_integer\<close>.\<close>

fun is_integer :: "pyfloat \<Rightarrow> bool" where
  "is_integer (Finite neg r) = (of_int \<lfloor>r\<rfloor> = r)"
| "is_integer (Infinity _) = False"
| "is_integer NaN = False"

section \<open>Regular expressions\<close>

text \<open>
  The patterns of the notebooks use character classes, concatenation, \<open>?\<close>, \<open>*\<close>
  and \<open>+\<close>. \<open>Chars cs\<close> matches one character of \<open>cs\<close> (none when \<open>cs\<close> is
  empty). Matching is by derivatives: a pattern matches a text when the pattern left
  after reading every character matches the empty text.
\<close>

datatype rexp = Eps | Chars string | Seq rexp rexp | Alt rexp rexp | Star rexp

definition Opt :: "rexp \<Rightarrow> rexp" where
  "Opt r = Alt r Eps"

definition Plus :: "rexp \<Rightarrow> rexp" where
  "Plus r = Seq r (Star r)"

fun nullable :: "rexp \<Rightarrow> bool" where
  "nullable Eps = True"
| "nullable (Chars cs) = False"
| "nullable (Seq r s) = (nullable r \<and> nullable s)"
| "nullable (Alt r s) = (nullable r \<or> nullable s)"
| "nullable (Star r) = True"

fun deriv :: "char \<Rightarrow> rexp \<Rightarrow> rexp" where
  "deriv c Eps = Chars []"
| "deriv c (Chars cs) = (if c \<in> set cs then Eps else Chars [])"
| "deriv c (Seq r s) =
     (if nullable r then Alt (Seq (deriv c r) s) (deriv c s) else Seq (deriv c r) s)"
| "deriv c (Alt r s) = Alt (deriv c r) (deriv c s)"
| "deriv c (Star r) = Seq (deriv c r) (Star r)"

fun matches :: "rexp \<Rightarrow> string \<Rightarrow> bool" where
  "matches r [] = nullable r"
| "matches r (c # s) = matches (deriv c r) s"

text \<open>
  \<open>re.compile(p + '$').match(x)\<close>: the pattern must match from the start of the text
  to its end, or to the newline that ends it. A subject that is not text raises
  TypeError.
\<close>

definition match_to_end :: "rexp \<Rightarrow> string \<Rightarrow> bool" where
  "match_to_end r s =
     (matches r s \<or> (s \<noteq> [] \<and> last s = CHR 0x0A \<and> matches r (butlast s)))"

fun re_match :: "rexp \<Rightarrow> pyval \<Rightarrow> pyerr + bool" where
  "re_match r (PStr s) = Inr (match_to_end r s)"
| "re_match r (PInt _) = Inl TypeError"
| "re_match r (PFloat _) = Inl TypeError"
| "re_match r PNone = Inl TypeError"
| "re_match r (PList _) = Inl TypeError"

definition digit :: rexp where
  "digit = Chars ''0123456789''"

text \<open>\<^verbatim>\<open>[-+]?\d+$\<close>\<close>

definition int_rx :: rexp where
  "int_rx = Seq (Opt (Chars ''-+'')) (Plus digit)"

text \<open>\<^verbatim>\<open>[-+]?\d*\.?\d+(?:[eE][-+]?\d+)?$\<close>\<close>

definition float_rx :: rexp where
  "float_rx =
     Seq (Opt (Chars ''-+''))
       (Seq (Star digit)
         (Seq (Opt (Chars ''.''))
           (Seq (Plus digit)
             (Opt (Seq (Chars ''eE'') (Seq (Opt (Chars ''-+'')) (Plus digit)))))))"

text \<open>\<^verbatim>\<open>[-+]\d+$\<close>, the integer pattern of \<open>forceint_re\<close>: its sign is not optional.\<close>

definition forceint_int_rx :: rexp where
  "forceint_int_rx = Seq (Chars ''-+'') (Plus digit)"

section \<open>The conversion functions\<close>

definition ret_int :: "pyerr + int \<Rightarrow> pyerr + pyval" where
  "ret_int m = bind_res m (\<lambda>n. Inr (PInt n))"

definition ret_float :: "pyerr + pyfloat \<Rightarrow> pyerr + pyval" where
  "ret_float m = bind_res m (\<lambda>f. Inr (PFloat f))"

text \<open>
  \<^verbatim>\<open>
  def int_re(x, int_match=re.compile(r'[-+]?\d+$').match):
      try:
          if int_match(x):
              return int(x)
          else:
              return x
      except TypeError:
          return int(x)
  \<close>
\<close>

definition int_re :: "bool \<Rightarrow> pyval \<Rightarrow> pyerr + pyval" where
  "int_re us x =
     catch TypeError
       (bind_res (re_match int_rx x) (\<lambda>m. if m then ret_int (py_int us x) else Inr x))
       (ret_int (py_int us x))"

text \<open>
  \<^verbatim>\<open>
  def int_try(x):
      try:
          return int(x)
      except ValueError:
          return x
  \<close>
\<close>

definition int_try :: "bool \<Rightarrow> pyval \<Rightarrow> pyerr + pyval" where
  "int_try us x = catch ValueError (ret_int (py_int us x)) (Inr x)"

text \<open>
  \<^verbatim>\<open>
  def float_re(x, float_match=re.compile(r'[-+]?\d*\.?\d+(?:[eE][-+]?\d+)?$').match):
      try:
          if float_match(x):
              return float(x)
          else:
              return x
      except TypeError:
          return float(x)
  \<close>
\<close>

definition float_re :: "bool \<Rightarrow> pyval \<Rightarrow> pyerr + pyval" where
  "float_re us x =
     catch TypeError
       (bind_res (re_match float_rx x) (\<lambda>m. if m then ret_float (py_float us x) else Inr x))
       (ret_float (py_float us x))"

text \<open>
  \<^verbatim>\<open>
  def float_try(x):
      try:
          return float(x)
      except ValueError:
          return x
  \<close>
\<close>

definition float_try :: "bool \<Rightarrow> pyval \<Rightarrow> pyerr + pyval" where
  "float_try us x = catch ValueError (ret_float (py_float us x)) (Inr x)"

text \<open>
  \<^verbatim>\<open>
  def real_re(x, int_match=re.compile(r'[-+]?\d+$').match,
              real_match=re.compile(r'[-+]?\d*\.?\d+(?:[eE][-+]?\d+)?$').match):
      try:
          if int_match(x):
              return int(x)
          elif real_match(x):
              return float(x)
          else:
              return x
      except TypeError:
          if type(x) in (float, int):
              return x
          else:
              raise TypeError
  \<close>
\<close>

definition real_re :: "bool \<Rightarrow> pyval \<Rightarrow> pyerr + pyval" where
  "real_re us x =
     catch TypeError
       (bind_res (re_match int_rx x) (\<lambda>m.
          if m then ret_int (py_int us x)
          else bind_res (re_match float_rx x) (\<lambda>m'.
            if m' then ret_float (py_float us x) else Inr x)))
       (if py_type x = TFloat \<or> py_type x = TInt then Inr x else Inl TypeError)"

text \<open>
  \<^verbatim>\<open>
  def real_try(x):
      try:
          a = float(x)
      except ValueError:
          return x
      else:
          b = int(a)
          return b if a == b else b
  \<close>
  Only \<open>float(x)\<close> stands under the \<open>try\<close>, so what \<open>int(a)\<close> raises is not
  caught; both branches of the last line return \<open>b\<close>.
\<close>

definition real_try :: "bool \<Rightarrow> pyval \<Rightarrow> pyerr + pyval" where
  "real_try us x =
     (case py_float us x of
        Inl e \<Rightarrow> if e = ValueError then Inr x else Inl e
      | Inr a \<Rightarrow>
          bind_res (float_to_int a) (\<lambda>b. Inr (if float_eq_int a b then PInt b else PInt b)))"

text \<open>
  \<^verbatim>\<open>
  def forceint_re(x, int_match=re.compile(r'[-+]\d+$').match,
                  float_match=re.compile(r'[-+]?\d*\.?\d+(?:[eE][-+]?\d+)?$').match):
      try:
          if int_match(x):
              return int(x)
          elif float_match(x):
              return int(float(x))
          else:
              return x
      except TypeError:
          return int(x)
  \<close>
\<close>

definition forceint_re :: "bool \<Rightarrow> pyval \<Rightarrow> pyerr + pyval" where
  "forceint_re us x =
     catch TypeError
       (bind_res (re_match forceint_int_rx x) (\<lambda>m.
          if m then ret_int (py_int us x)
          else bind_res (re_match float_rx x) (\<lambda>m'.
            if m' then ret_int (bind_res (py_float us x) float_to_int) else Inr x)))
       (ret_int (py_int us x))"

text \<open>
  \<^verbatim>\<open>
  def forceint_try(x):
      try:
          return int(x)
      except ValueError:
          try:
              return int(float(x))
          except ValueError:
              return x
  \<close>
\<close>

definition forceint_try :: "bool \<Rightarrow> pyval \<Rightarrow> pyerr + pyval" where
  "forceint_try us x =
     catch ValueError (ret_int (py_int us x))
       (catch ValueError (ret_int (bind_res (py_float us x) float_to_int)) (Inr x))"

section \<open>The checking functions\<close>

text \<open>
  \<^verbatim>\<open>
  def isint_re(x, int_match=re.compile(r'[-+]?\d+$').match):
      t = type(x)
      return t == int if t in (float, int) else bool(int_match(x))
  \<close>
\<close>

definition isint_re :: "pyval \<Rightarrow> pyerr + bool" where
  "isint_re x =
     (if py_type x = TFloat \<or> py_type x = TInt then Inr (py_type x = TInt)
      else re_match int_rx x)"

text \<open>
  \<^verbatim>\<open>
  def isint_try(x):
      try:
          int(x)
      except ValueError:
          return False
      else:
          return type(x) != float
  \<close>
\<close>

definition isint_try :: "bool \<Rightarrow> pyval \<Rightarrow> pyerr + bool" where
  "isint_try us x =
     (case py_int us x of
        Inl e \<Rightarrow> if e = ValueError then Inr False else Inl e
      | Inr _ \<Rightarrow> Inr (py_type x \<noteq> TFloat))"

text \<open>
  \<^verbatim>\<open>
  def isfloat_re(x, float_match=re.compile(r'[-+]?\d*\.?\d+(?:[eE][-+]?\d+)?$').match):
      t = type(x)
      return t == float if t in (float, int) else bool(float_match(x))
  \<close>
\<close>

definition isfloat_re :: "pyval \<Rightarrow> pyerr + bool" where
  "isfloat_re x =
     (if py_type x = TFloat \<or> py_type x = TInt then Inr (py_type x = TFloat)
      else re_match float_rx x)"

text \<open>
  \<^verbatim>\<open>
  def isfloat_try(x):
      try:
          float(x)
      except ValueError:
          return False
      else:
          return type(x) != int
  \<close>
\<close>

definition isfloat_try :: "bool \<Rightarrow> pyval \<Rightarrow> pyerr + bool" where
  "isfloat_try us x =
     (case py_float us x of
        Inl e \<Rightarrow> if e = ValueError then Inr False else Inl e
      | Inr _ \<Rightarrow> Inr (py_type x \<noteq> TInt))"

text \<open>
  \<^verbatim>\<open>
  def isreal_re(x, real_match=re.compile(r'[-+]?\d*\.?\d+(?:[eE][-+]?\d+)?$').match):
      return type(x) in (float, int) or bool(real_match(x))
  \<close>
\<close>

definition isreal_re :: "pyval \<Rightarrow> pyerr + bool" where
  "isreal_re x =
     (if py_type x = TFloat \<or> py_type x = TInt then Inr True else re_match float_rx x)"

text \<open>
  \<^verbatim>\<open>
  def isreal_try(x):
      try:
          float(x)
      except ValueError:
          return False
      else:
          return True
  \<close>
\<close>

definition isreal_try :: "bool \<Rightarrow> pyval \<Rightarrow> pyerr + bool" where
  "isreal_try us x =
     (case py_float us x of
        Inl e \<Rightarrow> if e = ValueError then Inr False else Inl e
      | Inr _ \<Rightarrow> Inr True)"

text \<open>\<open>int(x) == x\<close>, the handler of \<open>isintlike_re\<close>, for the objects that reach it.\<close>

fun py_eq_int :: "int \<Rightarrow> pyval \<Rightarrow> bool" where
  "py_eq_int n (PInt m) = (n = m)"
| "py_eq_int n (PFloat f) = float_eq_int f n"
| "py_eq_int n (PStr _) = False"
| "py_eq_int n PNone = False"
| "py_eq_int n (PList _) = False"

text \<open>
  \<^verbatim>\<open>
  def isintlike_re(x, int_match=re.compile(r'[-+]?\d+$').match,
                   float_match=re.compile(r'[-+]?\d*\.?\d+(?:[eE][-+]?\d+)?$').match):
      try:
          if int_match(x):
              return True
          elif float_match(x):
              return float(x).is_integer()
          else:
              return False
      except TypeError:
          return int(x) == x
  \<close>
\<close>

definition isintlike_re :: "bool \<Rightarrow> pyval \<Rightarrow> pyerr + bool" where
  "isintlike_re us x =
     catch TypeError
       (bind_res (re_match int_rx x) (\<lambda>m.
          if m then Inr True
          else bind_res (re_match float_rx x) (\<lambda>m'.
            if m' then bind_res (py_float us x) (\<lambda>a. Inr (is_integer a)) else Inr False)))
       (bind_res (py_int us x) (\<lambda>n. Inr (py_eq_int n x)))"

text \<open>
  \<^verbatim>\<open>
  def isintlike_try(x):
      try:
          a = int(x)
      except ValueError:
          try:
              a = float(x)
          except ValueError:
              return False
          else:
              return a.is_integer()
      else:
          return a == float(x)
  \<close>
\<close>

definition isintlike_try :: "bool \<Rightarrow> pyval \<Rightarrow> pyerr + bool" where
  "isintlike_try us x =
     (case py_int us x of
        Inl e \<Rightarrow>
          if e = ValueError
          then (case py_float us x of
                  Inl e' \<Rightarrow> if e' = ValueError then Inr False else Inl e'
                | Inr a \<Rightarrow> Inr (is_integer a))
          else Inl e
      | Inr a \<Rightarrow> bind_res (py_float us x) (\<lambda>f. Inr (float_eq_int f a)))"

section \<open>What a conversion returned\<close>

fun returns_int :: "pyerr + pyval \<Rightarrow> bool" where
  "returns_int (Inr (PInt _)) = True"
| "returns_int _ = False"

fun returns_float :: "pyerr + pyval \<Rightarrow> bool" where
  "returns_float (Inr (PFloat _)) = True"
| "returns_float _ = False"

definition returns_number :: "pyerr + pyval \<Rightarrow> bool" where
  "returns_number r = (returns_int r \<or> returns_float r)"

text \<open>A float was returned, and it equals its own truncation.\<close>

fun returns_intlike_float :: "pyerr + pyval \<Rightarrow> bool" where
  "returns_intlike_float (Inr (PFloat f)) = is_integer f"
| "returns_intlike_float _ = False"

text \<open>An exception left the function.\<close>

fun raises :: "pyerr + 'a \<Rightarrow> bool" where
  "raises (Inl _) = True"
| "raises (Inr _) = False"

section \<open>The value of an integer literal\<close>

text \<open>
  The number a string of decimal digits denotes in positional notation, and the integer
  a sign in front of it makes of that number.
\<close>

definition decimal_sum :: "string \<Rightarrow> nat" where
  "decimal_sum ds = (\<Sum>i<length ds. digit_val (ds ! i) * 10 ^ (length ds - Suc i))"

definition signed :: "string \<Rightarrow> nat \<Rightarrow> int" where
  "signed sg n = (if sg = ''-'' then - int n else int n)"

section \<open>The language of a pattern\<close>

text \<open>
  The set of texts a pattern stands for, against which the derivative matcher is
  proved correct, and the shapes of the texts of the three patterns.
\<close>

definition cat_lang :: "string set \<Rightarrow> string set \<Rightarrow> string set" where
  "cat_lang A B = {u @ v | u v. u \<in> A \<and> v \<in> B}"

inductive_set iter :: "string set \<Rightarrow> string set" for A :: "string set" where
  iter_nil: "[] \<in> iter A"
| iter_app: "u \<in> A \<Longrightarrow> v \<in> iter A \<Longrightarrow> u @ v \<in> iter A"

fun lang_of :: "rexp \<Rightarrow> string set" where
  "lang_of Eps = {[]}"
| "lang_of (Chars cs) = {[c] | c. c \<in> set cs}"
| "lang_of (Seq r s) = cat_lang (lang_of r) (lang_of s)"
| "lang_of (Alt r s) = lang_of r \<union> lang_of s"
| "lang_of (Star r) = iter (lang_of r)"

definition is_sign :: "string \<Rightarrow> bool" where
  "is_sign sg = (sg = [] \<or> sg = ''-'' \<or> sg = ''+'')"

definition is_exp_part :: "string \<Rightarrow> bool" where
  "is_exp_part ex =
     (ex = [] \<or> (\<exists>e sg ed. ex = e # sg @ ed \<and> (e = CHR ''e'' \<or> e = CHR ''E'') \<and> is_sign sg \<and> is_digits ed))"

definition is_lit_char :: "char \<Rightarrow> bool" where
  "is_lit_char c = (is_digit c \<or> c = CHR ''-'' \<or> c = CHR ''+'' \<or> c = CHR ''.'' \<or> c = CHR ''e'' \<or> c = CHR ''E'')"

section \<open>Evaluating the builtins on literals\<close>

lemma bit_length_numeral [simp]:
  "bit_length 0 = 0"
  "bit_length 1 = 1"
  "bit_length (Suc 0) = 1"
  "bit_length (numeral Num.One) = 1"
  "bit_length (numeral (Num.Bit0 k)) = bit_length (numeral k) + 1"
  "bit_length (numeral (Num.Bit1 k)) = bit_length (numeral k) + 1"
proof -
  show "bit_length 0 = 0" by (simp add: bit_length.simps)
  show one: "bit_length 1 = 1" by (simp add: bit_length.simps)
  show "bit_length (Suc 0) = 1" using one by simp
  show "bit_length (numeral Num.One) = 1" using one by simp
  show "bit_length (numeral (Num.Bit0 k)) = bit_length (numeral k) + 1"
    by (subst bit_length.simps) simp
  show "bit_length (numeral (Num.Bit1 k)) = bit_length (numeral k) + 1"
    by (subst bit_length.simps) simp
qed

lemma floor_rat_numeral_div [simp]:
  "\<lfloor>(numeral a :: rat) / numeral b\<rfloor> = numeral a div numeral b"
  by (metis floor_divide_of_int_eq of_int_numeral)

lemmas builtin_defs = py_float_str_def py_int_str_def prepare_def strip_def
  split_sign_def parse_float_def parse_decimal_def parse_exponent_def dec_to_double_def
  round_ratio_def ilog2_def div_half_even_def pow2_def is_digit_def is_space_def
  digit_val_def dec_value_def is_digits_def lower_char_def bind_res_def catch_def
  ret_int_def ret_float_def int_to_float_def Let_def

lemmas rx_defs = match_to_end_def int_rx_def float_rx_def forceint_int_rx_def digit_def
  Opt_def Plus_def

section \<open>The matcher decides the language\<close>

lemma nullable_lang: "nullable r \<longleftrightarrow> [] \<in> lang_of r"
  by (induction r) (auto simp: cat_lang_def intro: iter.iter_nil)

lemma in_cat: "w \<in> cat_lang A B \<longleftrightarrow> (\<exists>u v. w = u @ v \<and> u \<in> A \<and> v \<in> B)"
  by (auto simp: cat_lang_def)

lemma cons_in_cat:
  "c # w \<in> cat_lang A B \<longleftrightarrow>
     ([] \<in> A \<and> c # w \<in> B) \<or> (\<exists>u v. w = u @ v \<and> c # u \<in> A \<and> v \<in> B)"
proof
  assume "c # w \<in> cat_lang A B"
  then obtain u v where uv: "c # w = u @ v" "u \<in> A" "v \<in> B"
    by (auto simp: cat_lang_def)
  show "([] \<in> A \<and> c # w \<in> B) \<or> (\<exists>u v. w = u @ v \<and> c # u \<in> A \<and> v \<in> B)"
  proof (cases u)
    case Nil
    with uv show ?thesis by simp
  next
    case (Cons a u')
    with uv have "w = u' @ v" "c # u' \<in> A" by simp_all
    with uv show ?thesis by blast
  qed
next
  assume "([] \<in> A \<and> c # w \<in> B) \<or> (\<exists>u v. w = u @ v \<and> c # u \<in> A \<and> v \<in> B)"
  then show "c # w \<in> cat_lang A B"
  proof
    assume "[] \<in> A \<and> c # w \<in> B"
    then have "[] @ (c # w) \<in> cat_lang A B" unfolding cat_lang_def by blast
    then show ?thesis by simp
  next
    assume "\<exists>u v. w = u @ v \<and> c # u \<in> A \<and> v \<in> B"
    then obtain u v where "w = u @ v" "c # u \<in> A" "v \<in> B" by blast
    then have "(c # u) @ v \<in> cat_lang A B" unfolding cat_lang_def by blast
    with \<open>w = u @ v\<close> show ?thesis by simp
  qed
qed

lemma cons_in_iter:
  "c # w \<in> iter A \<longleftrightarrow> (\<exists>u v. w = u @ v \<and> c # u \<in> A \<and> v \<in> iter A)"
proof
  assume "c # w \<in> iter A"
  then show "\<exists>u v. w = u @ v \<and> c # u \<in> A \<and> v \<in> iter A"
  proof (induction "c # w" arbitrary: w rule: iter.induct)
    case (iter_app u v)
    show ?case
    proof (cases u)
      case Nil
      with iter_app show ?thesis by simp
    next
      case (Cons a u')
      with iter_app have "w = u' @ v" "c # u' \<in> A" by simp_all
      with iter_app show ?thesis by blast
    qed
  qed
next
  assume "\<exists>u v. w = u @ v \<and> c # u \<in> A \<and> v \<in> iter A"
  then obtain u v where "w = u @ v" "c # u \<in> A" "v \<in> iter A" by blast
  then have "(c # u) @ v \<in> iter A" by (intro iter.iter_app)
  with \<open>w = u @ v\<close> show "c # w \<in> iter A" by simp
qed

lemma deriv_lang: "w \<in> lang_of (deriv c r) \<longleftrightarrow> c # w \<in> lang_of r"
proof (induction r arbitrary: w)
  case Eps
  show ?case by simp
next
  case (Chars cs)
  show ?case by auto
next
  case (Seq r1 r2)
  have "w \<in> cat_lang (lang_of (deriv c r1)) (lang_of r2) \<longleftrightarrow>
        (\<exists>u v. w = u @ v \<and> c # u \<in> lang_of r1 \<and> v \<in> lang_of r2)"
    unfolding in_cat using Seq.IH(1) by blast
  then show ?case
    using Seq.IH(2) [of w] by (simp add: cons_in_cat [of c w] nullable_lang) blast
next
  case (Alt r1 r2)
  then show ?case by simp
next
  case (Star r)
  have "w \<in> cat_lang (lang_of (deriv c r)) (iter (lang_of r)) \<longleftrightarrow>
        (\<exists>u v. w = u @ v \<and> c # u \<in> lang_of r \<and> v \<in> iter (lang_of r))"
    unfolding in_cat using Star.IH by blast
  then show ?case
    by (simp add: cons_in_iter [of c w])
qed

lemma matches_lang: "matches r s \<longleftrightarrow> s \<in> lang_of r"
  by (induction s arbitrary: r) (simp_all add: nullable_lang deriv_lang)

lemma iter_chars: "w \<in> iter {[c] | c. c \<in> D} \<longleftrightarrow> set w \<subseteq> D"
proof
  assume "w \<in> iter {[c] | c. c \<in> D}"
  then show "set w \<subseteq> D"
    by (induction rule: iter.induct) auto
next
  assume "set w \<subseteq> D"
  then show "w \<in> iter {[c] | c. c \<in> D}"
  proof (induction w)
    case Nil
    show ?case by (rule iter.iter_nil)
  next
    case (Cons a w)
    then have "[a] \<in> {[c] | c. c \<in> D}" "w \<in> iter {[c] | c. c \<in> D}" by auto
    then have "[a] @ w \<in> iter {[c] | c. c \<in> D}" by (rule iter.iter_app)
    then show ?case by simp
  qed
qed

lemma digit_lang: "lang_of digit = {[c] | c. c \<in> Collect is_digit}"
  by (simp add: digit_def is_digit_def)

lemma star_digit_lang: "w \<in> lang_of (Star digit) \<longleftrightarrow> list_all is_digit w"
  unfolding lang_of.simps digit_lang iter_chars
  by (auto simp: list_all_iff)

lemma plus_digit_lang: "w \<in> lang_of (Plus digit) \<longleftrightarrow> is_digits w"
proof
  assume "w \<in> lang_of (Plus digit)"
  then obtain u v where uv: "w = u @ v" "u \<in> lang_of digit" "v \<in> lang_of (Star digit)"
    by (auto simp: Plus_def in_cat)
  from uv(2) obtain c where "u = [c]" "is_digit c"
    unfolding digit_lang by auto
  with uv star_digit_lang [of v] show "is_digits w"
    by (simp add: is_digits_def)
next
  assume "is_digits w"
  then obtain c v where w: "w = c # v" "is_digit c" "list_all is_digit v"
    by (cases w) (auto simp: is_digits_def)
  then have "[c] \<in> lang_of digit" "v \<in> lang_of (Star digit)"
    unfolding digit_lang star_digit_lang by auto
  then have "[c] @ v \<in> lang_of (Plus digit)"
    unfolding Plus_def lang_of.simps in_cat by blast
  with w show "w \<in> lang_of (Plus digit)" by simp
qed

lemma opt_sign_lang: "w \<in> lang_of (Opt (Chars ''-+'')) \<longleftrightarrow> is_sign w"
  by (auto simp: Opt_def is_sign_def)

lemma signed_digits_lang:
  "w \<in> lang_of (Seq (Opt (Chars ''-+'')) (Plus digit)) \<longleftrightarrow>
     (\<exists>sg ds. w = sg @ ds \<and> is_sign sg \<and> is_digits ds)"
  unfolding lang_of.simps(3) in_cat plus_digit_lang opt_sign_lang ..

lemma exp_part_lang:
  "w \<in> lang_of (Opt (Seq (Chars ''eE'') (Seq (Opt (Chars ''-+'')) (Plus digit)))) \<longleftrightarrow>
     is_exp_part w"
proof -
  have e: "\<And>u. u \<in> lang_of (Chars ''eE'') \<longleftrightarrow> (u = ''e'' \<or> u = ''E'')"
    by auto
  have "w \<in> lang_of (Seq (Chars ''eE'') (Seq (Opt (Chars ''-+'')) (Plus digit))) \<longleftrightarrow>
        (\<exists>e sg ed. w = e # sg @ ed \<and> (e = CHR ''e'' \<or> e = CHR ''E'') \<and> is_sign sg \<and> is_digits ed)"
    (is "?l \<longleftrightarrow> ?r")
  proof
    assume ?l
    then obtain u v where "w = u @ v" "u = ''e'' \<or> u = ''E''"
      "v \<in> lang_of (Seq (Opt (Chars ''-+'')) (Plus digit))"
      unfolding lang_of.simps(3) [of "Chars ''eE''"] in_cat e by blast
    then show ?r unfolding signed_digits_lang by (elim disjE exE conjE) (simp; blast)+
  next
    assume ?r
    then obtain e' sg ed where w: "w = [e'] @ (sg @ ed)" "e' = CHR ''e'' \<or> e' = CHR ''E''"
      "is_sign sg" "is_digits ed" by auto
    then have "[e'] \<in> lang_of (Chars ''eE'')"
      "sg @ ed \<in> lang_of (Seq (Opt (Chars ''-+'')) (Plus digit))"
      unfolding signed_digits_lang by auto
    with w(1) show ?l
      unfolding lang_of.simps(3) [of "Chars ''eE''"] in_cat by blast
  qed
  then show ?thesis
    unfolding Opt_def [of "Seq (Chars ''eE'') (Seq (Opt (Chars ''-+'')) (Plus digit))"]
      is_exp_part_def lang_of.simps(4)
    by simp
qed

lemma int_rx_lang:
  "matches int_rx s \<longleftrightarrow> (\<exists>sg ds. s = sg @ ds \<and> is_sign sg \<and> is_digits ds)"
  unfolding matches_lang int_rx_def signed_digits_lang ..

lemma forceint_int_rx_lang:
  "matches forceint_int_rx s \<longleftrightarrow>
     (\<exists>c ds. s = c # ds \<and> (c = CHR ''-'' \<or> c = CHR ''+'') \<and> is_digits ds)"
proof
  assume "matches forceint_int_rx s"
  then obtain u v where "s = u @ v" "u \<in> lang_of (Chars ''-+'')" "is_digits v"
    unfolding matches_lang forceint_int_rx_def lang_of.simps(3) in_cat plus_digit_lang by blast
  then show "\<exists>c ds. s = c # ds \<and> (c = CHR ''-'' \<or> c = CHR ''+'') \<and> is_digits ds"
    by auto
next
  assume "\<exists>c ds. s = c # ds \<and> (c = CHR ''-'' \<or> c = CHR ''+'') \<and> is_digits ds"
  then obtain c ds where "s = [c] @ ds" "[c] \<in> lang_of (Chars ''-+'')" "is_digits ds"
    by auto
  then show "matches forceint_int_rx s"
    unfolding matches_lang forceint_int_rx_def lang_of.simps(3) in_cat plus_digit_lang by blast
qed

lemma float_rx_lang:
  "matches float_rx s \<longleftrightarrow>
     (\<exists>sg ip dot fp ex. s = sg @ ip @ dot @ fp @ ex \<and> is_sign sg \<and> list_all is_digit ip \<and>
        (dot = [] \<or> dot = ''.'') \<and> is_digits fp \<and> is_exp_part ex)"
proof -
  have dot: "\<And>w. w \<in> lang_of (Opt (Chars ''.'')) \<longleftrightarrow> (w = [] \<or> w = ''.'')"
    by (auto simp: Opt_def)
  show ?thesis
    unfolding matches_lang float_rx_def lang_of.simps(3) in_cat plus_digit_lang opt_sign_lang
      star_digit_lang exp_part_lang dot
    by (rule iffI; elim exE conjE; (intro exI conjI)?; (assumption | simp)?)
qed

section \<open>Literal characters need no preparation\<close>

lemma is_digit_cases:
  "is_digit c \<Longrightarrow>
     c = CHR ''0'' \<or> c = CHR ''1'' \<or> c = CHR ''2'' \<or> c = CHR ''3'' \<or> c = CHR ''4'' \<or>
     c = CHR ''5'' \<or> c = CHR ''6'' \<or> c = CHR ''7'' \<or> c = CHR ''8'' \<or> c = CHR ''9''"
  by (simp add: is_digit_def)

lemma digit_char_facts:
  assumes "is_digit c"
  shows "\<not> is_space c" "c \<noteq> CHR ''_''" "c \<noteq> CHR ''-''" "c \<noteq> CHR ''+''" "c \<noteq> CHR ''.''"
    "c \<noteq> CHR ''e''" "c \<noteq> CHR ''E''" "c \<noteq> CHR 0x0A" "lower_char c = c"
proof -
  have "\<not> is_space c \<and> c \<noteq> CHR ''_'' \<and> c \<noteq> CHR ''-'' \<and> c \<noteq> CHR ''+'' \<and> c \<noteq> CHR ''.'' \<and>
    c \<noteq> CHR ''e'' \<and> c \<noteq> CHR ''E'' \<and> c \<noteq> CHR 0x0A \<and> lower_char c = c"
    using is_digit_cases [OF assms]
    by (elim disjE) (simp_all add: is_space_def lower_char_def)
  then show "\<not> is_space c" "c \<noteq> CHR ''_''" "c \<noteq> CHR ''-''" "c \<noteq> CHR ''+''" "c \<noteq> CHR ''.''"
    "c \<noteq> CHR ''e''" "c \<noteq> CHR ''E''" "c \<noteq> CHR 0x0A" "lower_char c = c"
    by simp_all
qed

lemma lit_char_facts:
  assumes "is_lit_char c"
  shows "\<not> is_space c" "c \<noteq> CHR ''_''" "c \<noteq> CHR 0x0A"
proof -
  have "\<not> is_space c \<and> c \<noteq> CHR ''_'' \<and> c \<noteq> CHR 0x0A"
    using assms digit_char_facts(1,2,8) [of c] unfolding is_lit_char_def
    by (elim disjE) (simp_all add: is_space_def)
  then show "\<not> is_space c" "c \<noteq> CHR ''_''" "c \<noteq> CHR 0x0A" by simp_all
qed

lemma drop_underscores_none:
  "CHR ''_'' \<notin> set s \<Longrightarrow> p \<noteq> CHR ''_'' \<Longrightarrow> drop_underscores p s = Some s"
  by (induction s arbitrary: p) auto

lemma strip_self:
  "s = [] \<or> (\<not> is_space (hd s) \<and> \<not> is_space (last s)) \<Longrightarrow> strip s = s"
proof (cases "s = []")
  case True
  then show ?thesis by (simp add: strip_def)
next
  case False
  assume "s = [] \<or> (\<not> is_space (hd s) \<and> \<not> is_space (last s))"
  with False have e: "\<not> is_space (hd s)" "\<not> is_space (last s)" by simp_all
  have "dropWhile is_space s = s"
    using e by (simp add: dropWhile_eq_self_iff)
  moreover have "dropWhile is_space (rev s) = rev s"
    using e False by (simp add: dropWhile_eq_self_iff hd_rev)
  ultimately show ?thesis by (simp add: strip_def)
qed

lemma strip_newline:
  assumes "s \<noteq> []" "\<not> is_space (hd s)" "\<not> is_space (last s)"
  shows "strip (s @ [CHR 0x0A]) = s"
proof -
  have "dropWhile is_space (s @ [CHR 0x0A]) = s @ [CHR 0x0A]"
    using assms by (simp add: dropWhile_eq_self_iff)
  moreover have "dropWhile is_space (rev s) = rev s"
    using assms by (simp add: dropWhile_eq_self_iff hd_rev)
  ultimately show ?thesis
    by (simp add: strip_def is_space_def)
qed

lemma prepare_lit:
  assumes "list_all is_lit_char s"
  shows "prepare us s = Some s" and "s \<noteq> [] \<Longrightarrow> prepare us (s @ [CHR 0x0A]) = Some s"
proof -
  have ends: "s \<noteq> [] \<Longrightarrow> \<not> is_space (hd s) \<and> \<not> is_space (last s)"
    using assms lit_char_facts(1) by (auto simp: list_all_iff)
  have no_us: "CHR ''_'' \<notin> set s" "CHR ''_'' \<notin> set (s @ [CHR 0x0A])"
    using assms lit_char_facts(2) by (auto simp: list_all_iff)
  have s1: "strip s = s" using ends by (intro strip_self) blast
  show "prepare us s = Some s"
    using s1 drop_underscores_none [OF no_us(1), of "CHR 0x00"] by (simp add: prepare_def)
  show "prepare us (s @ [CHR 0x0A]) = Some s" if "s \<noteq> []"
    using strip_newline [of s] ends that
      drop_underscores_none [OF no_us(2), of "CHR 0x00"] by (simp add: prepare_def)
qed

lemma is_sign_lit: "is_sign sg \<Longrightarrow> list_all is_lit_char sg"
  by (auto simp: is_sign_def is_lit_char_def)

lemma digits_lit: "list_all is_digit ds \<Longrightarrow> list_all is_lit_char ds"
  by (auto simp: list_all_iff is_lit_char_def)

lemma is_digits_lit: "is_digits ds \<Longrightarrow> list_all is_lit_char ds"
  by (simp add: is_digits_def digits_lit)

lemma exp_part_lit:
  assumes "is_exp_part ex"
  shows "list_all is_lit_char ex"
proof (cases "ex = []")
  case True
  then show ?thesis by simp
next
  case False
  with assms obtain e sg ed where ex: "ex = e # sg @ ed" "e = CHR ''e'' \<or> e = CHR ''E''"
    "is_sign sg" "is_digits ed"
    unfolding is_exp_part_def by blast
  from ex(2) have "is_lit_char e" by (auto simp: is_lit_char_def)
  with ex show ?thesis by (simp add: is_sign_lit is_digits_lit)
qed

lemma split_sign_app:
  assumes "is_sign sg" "r \<noteq> []" "hd r \<noteq> CHR ''-''" "hd r \<noteq> CHR ''+''"
  shows "split_sign (sg @ r) = (sg = ''-'', r)"
  using assms by (cases r) (auto simp: is_sign_def split_sign_def)

lemma is_digits_hd: "is_digits ds \<Longrightarrow> ds \<noteq> [] \<and> is_digit (hd ds)"
  by (cases ds) (auto simp: is_digits_def)

lemma py_int_plain:
  assumes "is_sign sg" "is_digits ds"
  shows "py_int_str us (sg @ ds) =
           Some (if sg = ''-'' then - int (dec_value ds) else int (dec_value ds))"
    and "py_int_str us (sg @ ds @ [CHR 0x0A]) =
           Some (if sg = ''-'' then - int (dec_value ds) else int (dec_value ds))"
proof -
  have lit: "list_all is_lit_char (sg @ ds)"
    using assms by (simp add: is_sign_lit is_digits_lit)
  have ne: "sg @ ds \<noteq> []" using assms is_digits_hd by auto
  have hd: "ds \<noteq> []" "hd ds \<noteq> CHR ''-''" "hd ds \<noteq> CHR ''+''"
    using is_digits_hd [OF assms(2)] digit_char_facts [of "hd ds"] by auto
  have sp: "split_sign (sg @ ds) = (sg = ''-'', ds)"
    using split_sign_app [OF assms(1) hd] .
  show "py_int_str us (sg @ ds) =
           Some (if sg = ''-'' then - int (dec_value ds) else int (dec_value ds))"
    using prepare_lit(1) [OF lit, of us] sp assms(2) by (simp add: py_int_str_def)
  show "py_int_str us (sg @ ds @ [CHR 0x0A]) =
           Some (if sg = ''-'' then - int (dec_value ds) else int (dec_value ds))"
    using prepare_lit(2) [OF lit ne, of us] sp assms(2) by (simp add: py_int_str_def)
qed

section \<open>The float parser on the shapes of the float pattern\<close>

lemma takeWhile_all: "list_all P xs \<Longrightarrow> takeWhile P (xs @ ys) = xs @ takeWhile P ys"
  by (induction xs) auto

lemma dropWhile_all: "list_all P xs \<Longrightarrow> dropWhile P (xs @ ys) = dropWhile P ys"
  by (induction xs) auto

lemma parse_exponent_ok:
  assumes "is_exp_part ex"
  shows "\<exists>e. parse_exponent ex = Some e"
proof (cases "ex = []")
  case True
  then show ?thesis by (simp add: parse_exponent_def)
next
  case False
  with assms obtain c sg ed where ex: "ex = c # sg @ ed" "c = CHR ''e'' \<or> c = CHR ''E''"
    "is_sign sg" "is_digits ed"
    unfolding is_exp_part_def by blast
  have "split_sign (sg @ ed) = (sg = ''-'', ed)"
    using is_digits_hd [OF ex(4)] digit_char_facts(3,4) [of "hd ed"]
    by (intro split_sign_app [OF ex(3)]) auto
  with ex show ?thesis by (auto simp: parse_exponent_def)
qed

lemma exp_part_no_digit:
  assumes "is_exp_part ex"
  shows "takeWhile is_digit ex = []" "dropWhile is_digit ex = ex"
    "(case ex of [] \<Rightarrow> a | c # t \<Rightarrow> if c = CHR ''.'' then b t else d) = (if ex = [] then a else d)"
proof -
  have "ex = [] \<or> (\<exists>t. ex = CHR ''e'' # t) \<or> (\<exists>t. ex = CHR ''E'' # t)"
    using assms unfolding is_exp_part_def by blast
  then have "takeWhile is_digit ex = [] \<and> dropWhile is_digit ex = ex \<and>
    (case ex of [] \<Rightarrow> a | c # t \<Rightarrow> if c = CHR ''.'' then b t else d) = (if ex = [] then a else d)"
    by (elim disjE exE) (simp_all add: is_digit_def)
  then show "takeWhile is_digit ex = []" "dropWhile is_digit ex = ex"
    "(case ex of [] \<Rightarrow> a | c # t \<Rightarrow> if c = CHR ''.'' then b t else d) = (if ex = [] then a else d)"
    by simp_all
qed

lemma parse_decimal_point:
  assumes "list_all is_digit ip" "list_all is_digit fp" "is_exp_part ex"
    "parse_exponent ex = Some e"
  shows "parse_decimal neg (ip @ ''.'' @ fp @ ex) =
           (if ip = [] \<and> fp = [] then None
            else Some (dec_to_double neg (dec_value (ip @ fp)) (e - int (length fp))))"
proof -
  have dot: "\<not> is_digit (CHR ''.'')" by (simp add: is_digit_def)
  have 1: "takeWhile is_digit (ip @ ''.'' @ fp @ ex) = ip"
    using assms(1) dot by (simp add: takeWhile_all)
  have 2: "dropWhile is_digit (ip @ ''.'' @ fp @ ex) = ''.'' @ fp @ ex"
    using assms(1) dot by (simp add: dropWhile_all)
  have 3: "takeWhile is_digit (fp @ ex) = fp"
    using assms(2) exp_part_no_digit(1) [OF assms(3)] by (simp add: takeWhile_all)
  have 4: "dropWhile is_digit (fp @ ex) = ex"
    using assms(2) exp_part_no_digit(2) [OF assms(3)] by (simp add: dropWhile_all)
  show ?thesis
    unfolding parse_decimal_def 1 2 using 3 4 assms(4) by (simp add: Let_def)
qed

lemma parse_decimal_nopoint:
  assumes "is_digits ds" "is_exp_part ex" "parse_exponent ex = Some e"
  shows "parse_decimal neg (ds @ ex) = Some (dec_to_double neg (dec_value ds) e)"
proof -
  have d: "list_all is_digit ds" "ds \<noteq> []" using assms(1) by (simp_all add: is_digits_def)
  have 1: "takeWhile is_digit (ds @ ex) = ds"
    using d(1) exp_part_no_digit(1) [OF assms(2)] by (simp add: takeWhile_all)
  have 2: "dropWhile is_digit (ds @ ex) = ex"
    using d(1) exp_part_no_digit(2) [OF assms(2)] by (simp add: dropWhile_all)
  have 3: "(case ex of [] \<Rightarrow> [] | c # t \<Rightarrow> if c = CHR ''.'' then takeWhile is_digit t else []) = []"
    by (rule trans [OF exp_part_no_digit(3) [OF assms(2)]]) simp
  have 4: "(case ex of [] \<Rightarrow> [] | c # t \<Rightarrow> if c = CHR ''.'' then dropWhile is_digit t else ex) = ex"
    by (rule trans [OF exp_part_no_digit(3) [OF assms(2)]]) simp
  show ?thesis
    using d(2) assms(3) 3 4 by (simp add: parse_decimal_def 1 2 Let_def)
qed

lemma not_special:
  assumes "r \<noteq> []" "is_digit (hd r) \<or> hd r = CHR ''.''"
  shows "map lower_char r \<noteq> ''inf''" "map lower_char r \<noteq> ''infinity''"
    "map lower_char r \<noteq> ''nan''"
proof -
  obtain c t where r: "r = c # t" using assms(1) by (cases r) auto
  have "lower_char c = c \<and> c \<noteq> CHR ''i'' \<and> c \<noteq> CHR ''n''"
  proof (cases "is_digit c")
    case True
    from is_digit_cases [OF this] digit_char_facts(9) [OF this] show ?thesis by auto
  next
    case False
    with assms(2) r have "c = CHR ''.''" by simp
    then show ?thesis by (simp add: lower_char_def)
  qed
  with r show "map lower_char r \<noteq> ''inf''" "map lower_char r \<noteq> ''infinity''"
    "map lower_char r \<noteq> ''nan''" by auto
qed

lemma parse_float_decimal:
  assumes "is_sign sg" "r \<noteq> []" "is_digit (hd r) \<or> hd r = CHR ''.''"
  shows "parse_float (sg @ r) = parse_decimal (sg = ''-'') r"
proof -
  have "hd r \<noteq> CHR ''-''" "hd r \<noteq> CHR ''+''"
    using assms(3) digit_char_facts(3,4) [of "hd r"] by auto
  then have "split_sign (sg @ r) = (sg = ''-'', r)"
    using split_sign_app [OF assms(1,2)] by simp
  then show ?thesis
    using not_special [OF assms(2,3)] by (simp add: parse_float_def)
qed

lemma parse_float_ok:
  assumes "is_sign sg" "list_all is_digit ip" "dot = [] \<or> dot = ''.''" "is_digits fp"
    "is_exp_part ex"
  shows "\<exists>f. parse_float (sg @ ip @ dot @ fp @ ex) = Some f"
proof -
  obtain e where e: "parse_exponent ex = Some e"
    using parse_exponent_ok [OF assms(5)] by blast
  have fp: "list_all is_digit fp" "fp \<noteq> []" "is_digit (hd fp)"
    using assms(4) is_digits_hd [OF assms(4)] by (simp_all add: is_digits_def)
  show ?thesis
  proof (cases "dot = []")
    case True
    have ds: "is_digits (ip @ fp)" using assms(2) fp by (simp add: is_digits_def)
    have "parse_float (sg @ (ip @ fp) @ ex) = parse_decimal (sg = ''-'') ((ip @ fp) @ ex)"
      using is_digits_hd [OF ds] by (intro parse_float_decimal [OF assms(1)]) (auto simp: hd_append)
    with parse_decimal_nopoint [OF ds assms(5) e] True show ?thesis by simp
  next
    case False
    with assms(3) have dot: "dot = ''.''" by simp
    have hd: "is_digit (hd (ip @ ''.'' @ fp @ ex)) \<or> hd (ip @ ''.'' @ fp @ ex) = CHR ''.''"
      using assms(2) by (cases ip) auto
    have "parse_float (sg @ ip @ ''.'' @ fp @ ex) = parse_decimal (sg = ''-'') (ip @ ''.'' @ fp @ ex)"
      using hd by (intro parse_float_decimal [OF assms(1)]) auto
    with parse_decimal_point [OF assms(2) fp(1) assms(5) e] fp(2) dot show ?thesis by simp
  qed
qed

section \<open>A text the patterns match is parsed\<close>

lemma float_match_shape:
  assumes "matches float_rx t"
  shows "list_all is_lit_char t" "t \<noteq> []" "is_digit (last t)" "\<exists>f. parse_float t = Some f"
proof -
  from assms obtain sg ip dot fp ex where t: "t = sg @ ip @ dot @ fp @ ex" and
    p: "is_sign sg" "list_all is_digit ip" "dot = [] \<or> dot = ''.''" "is_digits fp" "is_exp_part ex"
    unfolding float_rx_lang by blast
  have "list_all is_lit_char dot" using p(3) by (auto simp: is_lit_char_def)
  then show "list_all is_lit_char t"
    using t p by (simp add: is_sign_lit digits_lit is_digits_lit exp_part_lit)
  have fp: "fp \<noteq> []" "list_all is_digit fp" using p(4) by (simp_all add: is_digits_def)
  then show "t \<noteq> []" using t by simp
  show "\<exists>f. parse_float t = Some f" unfolding t by (rule parse_float_ok [OF p])
  show "is_digit (last t)"
  proof (cases "ex = []")
    case True
    then have "last t = last fp" using t fp by simp
    then show ?thesis using fp by (simp add: list_all_iff)
  next
    case False
    with p(5) obtain e sg' ed where ex: "ex = e # sg' @ ed" "is_digits ed"
      unfolding is_exp_part_def by blast
    then have ed: "ed \<noteq> []" "list_all is_digit ed" by (simp_all add: is_digits_def)
    then have "last t = last ed" using t ex by simp
    then show ?thesis using ed by (simp add: list_all_iff)
  qed
qed

lemma int_match_float_match: "matches int_rx t \<Longrightarrow> matches float_rx t"
proof -
  assume "matches int_rx t"
  then obtain sg ds where "t = sg @ ds" "is_sign sg" "is_digits ds"
    unfolding int_rx_lang by blast
  then have "t = sg @ [] @ [] @ ds @ [] \<and> is_sign sg \<and> list_all is_digit [] \<and>
    ([] = [] \<or> [] = ''.'') \<and> is_digits ds \<and> is_exp_part []"
    by (simp add: is_exp_part_def)
  then show "matches float_rx t" unfolding float_rx_lang by blast
qed

lemma forceint_match_int_match: "matches forceint_int_rx t \<Longrightarrow> matches int_rx t"
proof -
  assume "matches forceint_int_rx t"
  then obtain c ds where "t = c # ds" "c = CHR ''-'' \<or> c = CHR ''+''" "is_digits ds"
    unfolding forceint_int_rx_lang by blast
  then have "t = [c] @ ds \<and> is_sign [c] \<and> is_digits ds"
    by (auto simp: is_sign_def)
  then show "matches int_rx t" unfolding int_rx_lang by blast
qed

lemma match_to_end_mono:
  "(\<And>t. matches r t \<Longrightarrow> matches r' t) \<Longrightarrow> match_to_end r s \<Longrightarrow> match_to_end r' s"
  unfolding match_to_end_def by blast

lemma match_to_end_prepare:
  assumes "match_to_end r s" "\<And>t. matches r t \<Longrightarrow> matches float_rx t"
  shows "\<exists>t. matches r t \<and> prepare us s = Some t"
proof (cases "matches r s")
  case True
  then show ?thesis
    using prepare_lit(1) [OF float_match_shape(1) [OF assms(2)], of s us] by blast
next
  case False
  with assms(1) have s: "s \<noteq> []" "last s = CHR 0x0A" "matches r (butlast s)"
    unfolding match_to_end_def by simp_all
  from s(1,2) have "s = butlast s @ [CHR 0x0A]"
    by (metis append_butlast_last_id)
  then have "prepare us s = Some (butlast s)"
    using prepare_lit(2) [OF float_match_shape(1,2) [OF assms(2) [OF s(3)]], of us] by simp
  with s(3) show ?thesis by blast
qed

lemma float_match_parses:
  assumes "match_to_end float_rx s"
  shows "\<exists>f. py_float_str us s = Some f"
proof -
  obtain t where "matches float_rx t" "prepare us s = Some t"
    using match_to_end_prepare [OF assms, of us] by blast
  then show ?thesis
    using float_match_shape(4) [of t] by (simp add: py_float_str_def)
qed

lemma int_match_parses:
  assumes "match_to_end int_rx s"
  shows "\<exists>n. py_int_str us s = Some n"
proof -
  obtain t where t: "matches int_rx t" "prepare us s = Some t"
    using match_to_end_prepare [OF assms int_match_float_match, of us] by blast
  from t(1) obtain sg ds where d: "t = sg @ ds" "is_sign sg" "is_digits ds"
    unfolding int_rx_lang by blast
  have "split_sign (sg @ ds) = (sg = ''-'', ds)"
    using is_digits_hd [OF d(3)] digit_char_facts(3,4) [of "hd ds"]
    by (intro split_sign_app [OF d(2)]) auto
  then show ?thesis
    using t(2) d by (simp add: py_int_str_def)
qed

lemma py_int_float:
  assumes "py_int_str us s = Some n"
  shows "\<exists>f. py_float_str us s = Some f"
proof -
  from assms obtain t where t: "prepare us s = Some t"
    by (auto simp: py_int_str_def split: option.splits)
  obtain neg r where sp: "split_sign t = (neg, r)" by (cases "split_sign t") auto
  with assms t have r: "is_digits r"
    by (auto simp: py_int_str_def split: if_splits)
  have hd: "r \<noteq> []" "is_digit (hd r)" using is_digits_hd [OF r] by simp_all
  have "parse_decimal neg (r @ []) = Some (dec_to_double neg (dec_value r) 0)"
    by (rule parse_decimal_nopoint [OF r]) (simp_all add: is_exp_part_def parse_exponent_def)
  then have "parse_float t = Some (dec_to_double neg (dec_value r) 0)"
    using sp not_special [OF hd(1), of ] hd(2) by (simp add: parse_float_def)
  with t show ?thesis by (simp add: py_float_str_def)
qed

lemma py_float_int_literal:
  assumes "is_sign sg" "is_digits ds"
  shows "py_float_str us (sg @ ds) = Some (round_ratio (sg = ''-'') (dec_value ds) 1)"
proof -
  have lit: "list_all is_lit_char (sg @ ds)"
    using assms by (simp add: is_sign_lit is_digits_lit)
  have hd: "ds \<noteq> []" "is_digit (hd ds)" using is_digits_hd [OF assms(2)] by simp_all
  have "parse_decimal (sg = ''-'') (ds @ []) = Some (dec_to_double (sg = ''-'') (dec_value ds) 0)"
    by (rule parse_decimal_nopoint [OF assms(2)]) (simp_all add: is_exp_part_def parse_exponent_def)
  then have "parse_float (sg @ ds) = Some (dec_to_double (sg = ''-'') (dec_value ds) 0)"
    using parse_float_decimal [OF assms(1) hd(1)] hd(2) by simp
  then show ?thesis
    using prepare_lit(1) [OF lit, of us] by (simp add: py_float_str_def dec_to_double_def)
qed

section \<open>Digit strings and exact rounding\<close>

lemma dec_value_snoc: "dec_value (ds @ [c]) = 10 * dec_value ds + digit_val c"
  by (simp add: dec_value_def)

lemma decimal_sum_snoc: "decimal_sum (ds @ [c]) = 10 * decimal_sum ds + digit_val c"
proof -
  have "(\<Sum>i<length ds. digit_val ((ds @ [c]) ! i) * 10 ^ (length (ds @ [c]) - Suc i)) =
        (\<Sum>i<length ds. 10 * (digit_val (ds ! i) * 10 ^ (length ds - Suc i)))"
  proof (rule sum.cong)
    fix i assume "i \<in> {..<length ds}"
    then have i: "i < length ds" by simp
    then have "length (ds @ [c]) - Suc i = Suc (length ds - Suc i)" by simp
    with i show "digit_val ((ds @ [c]) ! i) * 10 ^ (length (ds @ [c]) - Suc i) =
      10 * (digit_val (ds ! i) * 10 ^ (length ds - Suc i))"
      by (simp add: nth_append)
  qed simp
  then show ?thesis
    by (simp add: decimal_sum_def sum_distrib_left)
qed

lemma dec_value_sum: "dec_value ds = decimal_sum ds"
proof (induction ds rule: rev_induct)
  case Nil
  show ?case by (simp add: dec_value_def decimal_sum_def)
next
  case (snoc c ds)
  then show ?case by (simp add: dec_value_snoc decimal_sum_snoc)
qed

lemma bit_length_bounds:
  "0 < n \<Longrightarrow> 2 ^ (bit_length n - 1) \<le> n \<and> n < 2 ^ bit_length n"
proof (induction n rule: bit_length.induct)
  case (1 n)
  show ?case
  proof (cases "n div 2 = 0")
    case True
    with 1(2) have "n = 1" by (auto simp: div_eq_0_iff)
    then show ?thesis by simp
  next
    case False
    then have h: "2 ^ (bit_length (n div 2) - 1) \<le> n div 2" "n div 2 < 2 ^ bit_length (n div 2)"
      using 1(1) 1(2) by auto
    have pos: "0 < bit_length (n div 2)"
      using False by (subst bit_length.simps) simp
    have bl: "bit_length n = Suc (bit_length (n div 2))"
      using 1(2) by (subst bit_length.simps) simp
    from pos have e: "2 ^ (bit_length n - 1) = 2 * (2::nat) ^ (bit_length (n div 2) - 1)"
      unfolding bl by (cases "bit_length (n div 2)") simp_all
    show ?thesis
      unfolding e using h unfolding bl by (simp, linarith)
  qed
qed

lemma ilog2_int: "0 < n \<Longrightarrow> ilog2 n 1 = int (bit_length n) - 1"
proof -
  assume n: "0 < n"
  then have b: "0 < bit_length n" by (subst bit_length.simps) simp
  then have "nat (int (bit_length n) - 1) = bit_length n - 1" by simp
  with bit_length_bounds [OF n] b show ?thesis
    by (simp add: ilog2_def Let_def)
qed

lemma div_half_even_one: "div_half_even n 1 = n" "div_half_even n (Suc 0) = n"
  by (simp_all add: div_half_even_def)

lemma round_ratio_small:
  assumes "n < 2 ^ 53"
  shows "round_ratio neg n 1 = Finite neg (of_nat n)"
proof (cases "n = 0")
  case True
  then show ?thesis by (simp add: round_ratio_def)
next
  case False
  then have n: "0 < n" by simp
  define b where "b = bit_length n"
  have "(2::nat) ^ (b - 1) < 2 ^ 53"
    using bit_length_bounds [OF n] assms unfolding b_def by linarith
  then have b53: "b - 1 < 53" by (simp only: power_strict_increasing_iff one_less_numeral_iff semiring_norm)
  have bpos: "0 < b" using n unfolding b_def by (subst bit_length.simps) simp
  have "rat_of_nat n < 2 ^ 53"
    using assms by (metis of_nat_less_iff of_nat_numeral of_nat_power)
  also have "\<dots> < (2::rat) ^ 1024" by simp
  finally have small: "\<not> 2 ^ 1024 \<le> rat_of_nat n" by simp
  show ?thesis
  proof (cases "b = 53")
    case True
    then have p: "max (ilog2 n 1 - 52) (- 1074) = 0"
      unfolding ilog2_int [OF n] b_def [symmetric] by simp
    show ?thesis
      using False small unfolding round_ratio_def Let_def p
      by (simp add: div_half_even_one pow2_def)
  next
    case b: False
    have p: "max (ilog2 n 1 - 52) (- 1074) = - int (53 - b)"
      using b53 bpos unfolding ilog2_int [OF n] b_def [symmetric] by simp
    have np: "\<not> 0 \<le> - int (53 - b)" using b53 bpos b by simp
    have nn: "nat (- (- int (53 - b))) = 53 - b" by (simp only: minus_minus nat_int)
    have pw: "pow2 (- int (53 - b)) = 1 / 2 ^ (53 - b)"
      unfolding pow2_def nn using np by (simp only: if_False)
    have val: "rat_of_nat (n * 2 ^ (53 - b)) * pow2 (- int (53 - b)) = of_nat n"
      unfolding pw by simp
    have m: "(if 0 \<le> - int (53 - b) then div_half_even n (1 * 2 ^ nat (- int (53 - b)))
              else div_half_even (n * 2 ^ nat (- (- int (53 - b)))) 1) = n * 2 ^ (53 - b)"
      unfolding nn using np by (simp only: if_False div_half_even_one)
    show ?thesis
      unfolding round_ratio_def Let_def p m val using False small by simp
  qed
qed

section \<open>The conversions on text\<close>

lemma round_ratio_exact:
  assumes "n \<le> 2 ^ 53"
  shows "round_ratio neg n 1 = Finite neg (of_nat n)"
proof (cases "n = 2 ^ 53")
  case True
  then show ?thesis
    by (simp add: round_ratio_def ilog2_def div_half_even_def pow2_def Let_def)
next
  case False
  with assms have "n < 2 ^ 53" by simp
  then show ?thesis by (rule round_ratio_small)
qed

lemma float_to_int_no_type_error [simp]: "float_to_int a \<noteq> Inl TypeError"
  by (cases a) simp_all

lemma int_re_text:
  "int_re us (PStr s) =
     (if match_to_end int_rx s
      then (case py_int_str us s of None \<Rightarrow> Inl ValueError | Some n \<Rightarrow> Inr (PInt n))
      else Inr (PStr s))"
  by (simp add: int_re_def catch_def bind_res_def ret_int_def split: option.splits)

lemma int_try_text:
  "int_try us (PStr s) =
     (case py_int_str us s of None \<Rightarrow> Inr (PStr s) | Some n \<Rightarrow> Inr (PInt n))"
  by (simp add: int_try_def catch_def bind_res_def ret_int_def split: option.splits)

lemma float_re_text:
  "float_re us (PStr s) =
     (if match_to_end float_rx s
      then (case py_float_str us s of None \<Rightarrow> Inl ValueError | Some f \<Rightarrow> Inr (PFloat f))
      else Inr (PStr s))"
  by (simp add: float_re_def catch_def bind_res_def ret_float_def split: option.splits)

lemma float_try_text:
  "float_try us (PStr s) =
     (case py_float_str us s of None \<Rightarrow> Inr (PStr s) | Some f \<Rightarrow> Inr (PFloat f))"
  by (simp add: float_try_def catch_def bind_res_def ret_float_def split: option.splits)

lemma real_re_text:
  "real_re us (PStr s) =
     (if match_to_end int_rx s
      then (case py_int_str us s of None \<Rightarrow> Inl ValueError | Some n \<Rightarrow> Inr (PInt n))
      else if match_to_end float_rx s
      then (case py_float_str us s of None \<Rightarrow> Inl ValueError | Some f \<Rightarrow> Inr (PFloat f))
      else Inr (PStr s))"
  by (simp add: real_re_def catch_def bind_res_def ret_int_def ret_float_def split: option.splits)

lemma real_try_text:
  "real_try us (PStr s) =
     (case py_float_str us s of
        None \<Rightarrow> Inr (PStr s)
      | Some a \<Rightarrow> bind_res (float_to_int a) (\<lambda>b. Inr (PInt b)))"
  by (simp add: real_try_def split: option.splits)

lemma forceint_re_text:
  "forceint_re us (PStr s) =
     (if match_to_end forceint_int_rx s
      then (case py_int_str us s of None \<Rightarrow> Inl ValueError | Some n \<Rightarrow> Inr (PInt n))
      else if match_to_end float_rx s
      then (case py_float_str us s of
              None \<Rightarrow> Inl ValueError
            | Some a \<Rightarrow> bind_res (float_to_int a) (\<lambda>b. Inr (PInt b)))
      else Inr (PStr s))"
  by (cases "float_to_int (the (py_float_str us s))")
    (auto simp: forceint_re_def catch_def bind_res_def ret_int_def split: option.splits)

lemma forceint_try_text:
  "forceint_try us (PStr s) =
     (case py_int_str us s of
        Some n \<Rightarrow> Inr (PInt n)
      | None \<Rightarrow>
          (case py_float_str us s of
             None \<Rightarrow> Inr (PStr s)
           | Some a \<Rightarrow> catch ValueError (bind_res (float_to_int a) (\<lambda>b. Inr (PInt b))) (Inr (PStr s))))"
  by (simp add: forceint_try_def catch_def bind_res_def ret_int_def split: option.splits sum.splits)

lemma int_literal_matches:
  assumes "is_sign sg" "is_digits ds"
  shows "match_to_end int_rx (sg @ ds)"
  using assms unfolding match_to_end_def int_rx_lang by blast

section \<open>The checks on text\<close>

lemma isint_re_text: "isint_re (PStr s) = Inr (match_to_end int_rx s)"
  by (simp add: isint_re_def)

lemma isfloat_re_text: "isfloat_re (PStr s) = Inr (match_to_end float_rx s)"
  by (simp add: isfloat_re_def)

lemma isreal_re_text: "isreal_re (PStr s) = Inr (match_to_end float_rx s)"
  by (simp add: isreal_re_def)

lemma isint_try_text: "isint_try us (PStr s) = Inr (py_int_str us s \<noteq> None)"
  by (simp add: isint_try_def split: option.splits)

lemma isfloat_try_text: "isfloat_try us (PStr s) = Inr (py_float_str us s \<noteq> None)"
  by (simp add: isfloat_try_def split: option.splits)

lemma isintlike_re_text:
  "isintlike_re us (PStr s) =
     (if match_to_end int_rx s then Inr True
      else if match_to_end float_rx s
      then (case py_float_str us s of None \<Rightarrow> Inl ValueError | Some a \<Rightarrow> Inr (is_integer a))
      else Inr False)"
  by (simp add: isintlike_re_def catch_def bind_res_def split: option.splits)

text \<open>
  Text that \<open>int\<close> reads is read by \<open>float\<close> as the double nearest to the same
  integer, so the two agree exactly up to \<open>2 ^ 53\<close>.
\<close>

lemma py_int_float_value:
  assumes "py_int_str us s = Some n"
  shows "\<exists>neg. py_float_str us s = Some (round_ratio neg (nat \<bar>n\<bar>) 1) \<and>
           n = (if neg then - int (nat \<bar>n\<bar>) else int (nat \<bar>n\<bar>))"
proof -
  from assms obtain t where t: "prepare us s = Some t"
    by (auto simp: py_int_str_def split: option.splits)
  obtain neg r where sp: "split_sign t = (neg, r)" by (cases "split_sign t") auto
  with assms t have r: "is_digits r"
    and n: "n = (if neg then - int (dec_value r) else int (dec_value r))"
    by (auto simp: py_int_str_def split: if_splits)
  have hd: "r \<noteq> []" "is_digit (hd r)" using is_digits_hd [OF r] by simp_all
  have "parse_decimal neg (r @ []) = Some (dec_to_double neg (dec_value r) 0)"
    by (rule parse_decimal_nopoint [OF r]) (simp_all add: is_exp_part_def parse_exponent_def)
  then have "parse_float t = Some (dec_to_double neg (dec_value r) 0)"
    using sp not_special [OF hd(1)] hd(2) by (simp add: parse_float_def)
  with t have f: "py_float_str us s = Some (round_ratio neg (dec_value r) 1)"
    by (simp add: py_float_str_def dec_to_double_def)
  have m: "nat \<bar>n\<bar> = dec_value r" using n by simp
  show ?thesis
    using f n unfolding m by blast
qed

lemma isintlike_try_text:
  "isintlike_try us (PStr s) =
     (case py_int_str us s of
        None \<Rightarrow> (case py_float_str us s of None \<Rightarrow> Inr False | Some a \<Rightarrow> Inr (is_integer a))
      | Some n \<Rightarrow>
          (case py_float_str us s of None \<Rightarrow> Inl ValueError | Some f \<Rightarrow> Inr (float_eq_int f n)))"
  by (simp add: isintlike_try_def bind_res_def split: option.splits)

lemma isreal_try_text: "isreal_try us (PStr s) = Inr (py_float_str us s \<noteq> None)"
  by (simp add: isreal_try_def split: option.splits)

lemma isintlike_try_small:
  assumes "py_int_str us s = Some n" "\<bar>n\<bar> \<le> 2 ^ 53"
  shows "isintlike_try us (PStr s) = Inr True"
proof -
  obtain neg where f: "py_float_str us s = Some (round_ratio neg (nat \<bar>n\<bar>) 1)"
    and n: "n = (if neg then - int (nat \<bar>n\<bar>) else int (nat \<bar>n\<bar>))"
    using py_int_float_value [OF assms(1)] by blast
  have "nat \<bar>n\<bar> \<le> 2 ^ 53" using assms(2) by (simp add: nat_le_iff)
  then have r: "round_ratio neg (nat \<bar>n\<bar>) 1 = Finite neg (of_nat (nat \<bar>n\<bar>))"
    by (rule round_ratio_exact)
  have "float_eq_int (Finite neg (of_nat (nat \<bar>n\<bar>))) n"
  proof (cases neg)
    case True
    with n have "n = - int (nat \<bar>n\<bar>)" by simp
    then have "(of_int n :: rat) = - of_nat (nat \<bar>n\<bar>)"
      by (metis of_int_minus of_int_of_nat_eq)
    with True show ?thesis by simp
  next
    case False
    with n have "n = int (nat \<bar>n\<bar>)" by simp
    then have "(of_int n :: rat) = of_nat (nat \<bar>n\<bar>)"
      by (metis of_int_of_nat_eq)
    with False show ?thesis by simp
  qed
  then show ?thesis
    using assms(1) f r by (simp add: isintlike_try_text)
qed

lemma isreal_try_real_try:
  assumes "\<not> raises (real_try us (PStr s))"
  shows "isreal_try us (PStr s) = Inr (returns_number (real_try us (PStr s)))"
proof (cases "py_float_str us s")
  case None
  then show ?thesis
    by (simp add: isreal_try_text real_try_text returns_number_def)
next
  case (Some a)
  with assms obtain b where "float_to_int a = Inr b"
    by (cases "float_to_int a") (simp_all add: real_try_text bind_res_def)
  with Some show ?thesis
    by (simp add: isreal_try_text real_try_text returns_number_def bind_res_def)
qed

text \<open>
  Where the try/except checks miss a case: \<open>isintlike_try\<close> compares the exact
  \<open>int(x)\<close> with the rounded \<open>float(x)\<close>, so it answers False on an integer literal
  beyond 53 bits, which \<open>isintlike_re\<close> accepts; and \<open>real_try\<close> lets what
  \<open>int(a)\<close> raises escape on a literal that is a float infinity or NaN, which
  \<open>isreal_try\<close> accepts.
\<close>

lemma try_family_missed_cases:
  "isintlike_try us (PStr ''35892482945872302493947939485729'') = Inr False"
  "isintlike_re us (PStr ''35892482945872302493947939485729'') = Inr True"
  "int_try us (PStr ''35892482945872302493947939485729'') =
     Inr (PInt 35892482945872302493947939485729)"
  "isreal_try us (PStr ''1e309'') = Inr True"
  "real_try us (PStr ''1e309'') = Inl OverflowError"
  "isreal_try us (PStr ''nan'') = Inr True"
  "real_try us (PStr ''nan'') = Inl ValueError"
proof -
  have "is_digits ''35892482945872302493947939485729''"
    by (simp add: is_digits_def is_digit_def)
  then have "match_to_end int_rx ([] @ ''35892482945872302493947939485729'')"
    by (intro int_literal_matches) (simp_all add: is_sign_def)
  then show "isintlike_re us (PStr ''35892482945872302493947939485729'') = Inr True"
    by (simp add: isintlike_re_text)
  show "isintlike_try us (PStr ''35892482945872302493947939485729'') = Inr False"
    by (simp add: isintlike_try_def builtin_defs)
  show "int_try us (PStr ''35892482945872302493947939485729'') =
     Inr (PInt 35892482945872302493947939485729)"
    by (simp add: int_try_def builtin_defs)
  have "py_float_str us ''1e309'' = Some (Infinity False)"
    by (simp add: builtin_defs)
  then show "isreal_try us (PStr ''1e309'') = Inr True"
    "real_try us (PStr ''1e309'') = Inl OverflowError"
    by (simp_all add: isreal_try_text real_try_text bind_res_def)
  have "py_float_str us ''nan'' = Some NaN"
    by (simp add: builtin_defs)
  then show "isreal_try us (PStr ''nan'') = Inr True"
    "real_try us (PStr ''nan'') = Inl ValueError"
    by (simp_all add: isreal_try_text real_try_text bind_res_def)
qed

section \<open>Digits around a decimal point\<close>

lemma point_literal_match:
  assumes "is_sign sg" "list_all is_digit ip" "list_all is_digit fp"
  shows "match_to_end float_rx (sg @ ip @ ''.'' @ fp) \<longleftrightarrow> fp \<noteq> []"
proof (cases "fp = []")
  case True
  have l: "last (sg @ ip @ ''.'') = CHR ''.''" by simp
  have nd: "\<not> is_digit (CHR ''.'')" by (simp add: is_digit_def)
  have "\<not> matches float_rx (sg @ ip @ ''.'')"
  proof
    assume "matches float_rx (sg @ ip @ ''.'')"
    from float_match_shape(3) [OF this] nd show False unfolding l by simp
  qed
  moreover have "last (sg @ ip @ ''.'') \<noteq> CHR 0x0A" unfolding l by simp
  ultimately show ?thesis
    using True unfolding match_to_end_def by simp
next
  case False
  with assms(3) have fp: "is_digits fp" by (simp add: is_digits_def)
  have "\<exists>sg' ip' dot fp' ex. sg @ ip @ ''.'' @ fp = sg' @ ip' @ dot @ fp' @ ex \<and> is_sign sg' \<and>
    list_all is_digit ip' \<and> (dot = [] \<or> dot = ''.'') \<and> is_digits fp' \<and> is_exp_part ex"
    apply (rule exI [of _ sg])
    apply (rule exI [of _ ip])
    apply (rule exI [of _ "''.''"])
    apply (rule exI [of _ fp])
    apply (rule exI [of _ "[]"])
    using assms fp by (simp add: is_exp_part_def)
  then have "matches float_rx (sg @ ip @ ''.'' @ fp)"
    unfolding float_rx_lang .
  with False show ?thesis by (simp add: match_to_end_def)
qed

lemma point_literal_parse:
  assumes "is_sign sg" "list_all is_digit ip" "list_all is_digit fp"
  shows "py_float_str us (sg @ ip @ ''.'' @ fp) =
           (if ip = [] \<and> fp = [] then None
            else Some (dec_to_double (sg = ''-'') (dec_value (ip @ fp)) (- int (length fp))))"
proof -
  have "list_all is_lit_char ''.''" by (simp add: is_lit_char_def)
  then have lit: "list_all is_lit_char (sg @ ip @ ''.'' @ fp)"
    using assms by (simp add: is_sign_lit digits_lit)
  have hd: "is_digit (hd (ip @ ''.'' @ fp)) \<or> hd (ip @ ''.'' @ fp) = CHR ''.''"
    using assms(2) by (cases ip) auto
  have "parse_float (sg @ ip @ ''.'' @ fp) = parse_decimal (sg = ''-'') (ip @ ''.'' @ fp @ [])"
    using parse_float_decimal [OF assms(1) _ hd] by simp
  also have "\<dots> = (if ip = [] \<and> fp = [] then None
      else Some (dec_to_double (sg = ''-'') (dec_value (ip @ fp)) (0 - int (length fp))))"
    by (rule parse_decimal_point [OF assms(2,3)]) (simp_all add: is_exp_part_def parse_exponent_def)
  finally show ?thesis
    using prepare_lit(1) [OF lit, of us] by (simp add: py_float_str_def)
qed

section \<open>Already-numeric and unsupported input\<close>

text \<open>
  Claim C7. An integer handed to \<open>int_re\<close>, \<open>int_try\<close>, \<open>forceint_re\<close> or
  \<open>forceint_try\<close> comes back as that same integer. No text is scanned on the way: the
  regular expression refuses a subject that is not text with TypeError, and the handler
  answers with \<open>int(x)\<close>, which is \<open>x\<close>.
\<close>

theorem int_input_passthrough:
  "int_re us (PInt n) = Inr (PInt n) \<and> int_try us (PInt n) = Inr (PInt n) \<and>
   forceint_re us (PInt n) = Inr (PInt n) \<and> forceint_try us (PInt n) = Inr (PInt n) \<and>
   re_match int_rx (PInt n) = Inl TypeError \<and> re_match forceint_int_rx (PInt n) = Inl TypeError"
  by (simp add: int_re_def int_try_def forceint_re_def forceint_try_def catch_def bind_res_def
      ret_int_def)



section \<open>Narrowing and truncation\<close>

text \<open>
  Claim C2. \<open>real_try\<close> builds the float \<open>a\<close>, truncates it to \<open>b\<close> and ends with
  \<open>return b if a == b else b\<close>: both branches return the integer. So the text
  \<open>1.0\<close> gives the integer 1, and the text \<open>1.5\<close> gives the integer 1 too, where the
  claim has the float 1.5.
\<close>

theorem real_try_returns_truncation:
  "real_try us (PStr ''1.0'') = Inr (PInt 1) \<and> real_try us (PStr ''1.5'') = Inr (PInt 1)"
  by (simp add: real_try_def builtin_defs)

text \<open>
  Claim C3. The integer pattern of \<open>forceint_re\<close> is \<^verbatim>\<open>[-+]\d+$\<close>, with a sign that
  is not optional. An unsigned integer literal falls through to the float pattern and
  is converted by way of a double, so a literal beyond 53 bits loses its low digits,
  while \<open>forceint_try\<close> and the signed literal keep them. The fractional literals of
  the claim are truncated toward zero by both functions.
\<close>

theorem forceint_re_unsigned_literal_inexact:
  "forceint_re us (PStr ''35892482945872302493947939485729'') =
     Inr (PInt 35892482945872301180401634770944) \<and>
   forceint_re us (PStr ''+35892482945872302493947939485729'') =
     Inr (PInt 35892482945872302493947939485729) \<and>
   forceint_try us (PStr ''35892482945872302493947939485729'') =
     Inr (PInt 35892482945872302493947939485729) \<and>
   forceint_re us (PStr ''3.9'') = Inr (PInt 3) \<and>
   forceint_re us (PStr ''-3.9'') = Inr (PInt (- 3)) \<and>
   forceint_try us (PStr ''3.9'') = Inr (PInt 3) \<and>
   forceint_try us (PStr ''-3.9'') = Inr (PInt (- 3))"
proof -
  have "is_digits ''35892482945872302493947939485729''"
    by (simp add: is_digits_def is_digit_def)
  then have "match_to_end int_rx ([] @ ''35892482945872302493947939485729'')"
    by (intro int_literal_matches) (simp_all add: is_sign_def)
  then have m: "match_to_end float_rx ''35892482945872302493947939485729''"
    using match_to_end_mono [OF int_match_float_match] by simp
  have n: "\<not> match_to_end forceint_int_rx ''35892482945872302493947939485729''"
    by (simp add: rx_defs)
  have p: "py_float_str us ''35892482945872302493947939485729'' =
    Some (Finite False 35892482945872301180401634770944)"
    by (simp add: builtin_defs)
  have a: "forceint_re us (PStr ''35892482945872302493947939485729'') =
     Inr (PInt 35892482945872301180401634770944)"
    by (simp add: forceint_re_text m n p bind_res_def)
  have b: "forceint_re us (PStr ''+35892482945872302493947939485729'') =
     Inr (PInt 35892482945872302493947939485729)"
    by (simp add: forceint_re_def builtin_defs rx_defs)
  have c: "forceint_try us (PStr ''35892482945872302493947939485729'') =
     Inr (PInt 35892482945872302493947939485729)"
    by (simp add: forceint_try_def builtin_defs)
  have d: "forceint_re us (PStr ''3.9'') = Inr (PInt 3)"
    by (simp add: forceint_re_def builtin_defs rx_defs)
  have e: "forceint_re us (PStr ''-3.9'') = Inr (PInt (- 3))"
    by (simp add: forceint_re_def builtin_defs rx_defs)
  have f: "forceint_try us (PStr ''3.9'') = Inr (PInt 3)"
    by (simp add: forceint_try_def builtin_defs)
  have g: "forceint_try us (PStr ''-3.9'') = Inr (PInt (- 3))"
    by (simp add: forceint_try_def builtin_defs)
  from a b c d e f g show ?thesis by (intro conjI)
qed

section \<open>The checks on numbers\<close>

text \<open>
  On a number the four checks go by its type wherever the builtin they call returns.
\<close>

lemma numeric_checks_by_type:
  "isint_re (PInt n) = Inr True" "isfloat_re (PInt n) = Inr False"
  "isint_re (PFloat f) = Inr False" "isfloat_re (PFloat f) = Inr True"
  "isint_try us (PInt n) = Inr True" "isfloat_try us (PFloat f) = Inr True"
  "isint_try us (PFloat (Finite neg r)) = Inr False" "isint_try us (PFloat NaN) = Inr False"
  by (simp_all add: isint_re_def isfloat_re_def isint_try_def isfloat_try_def)

text \<open>
  Claim C10. \<open>isint_re\<close> and \<open>isfloat_re\<close> look at the type only, so they give
  False and True on every float. \<open>isint_try\<close> first calls \<open>int(x)\<close> and catches
  ValueError alone: on the float infinity \<open>int\<close> raises OverflowError, which escapes
  instead of the answer False. In the same way \<open>isfloat_try\<close> calls \<open>float(x)\<close>, which
  raises OverflowError on an integer from \<open>2 ^ 1024\<close> on.
\<close>

theorem isint_try_infinity_raises:
  "isint_try us (PFloat (Infinity False)) = Inl OverflowError \<and>
   isint_re (PFloat (Infinity False)) = Inr False \<and>
   isfloat_re (PFloat (Infinity False)) = Inr True \<and>
   isfloat_try us (PInt (2 ^ 1024)) = Inl OverflowError \<and>
   isfloat_re (PInt (2 ^ 1024)) = Inr False"
  by (simp add: isint_try_def isint_re_def isfloat_try_def isfloat_re_def builtin_defs)

section \<open>Integer literals\<close>

text \<open>
  Claim C1, as amended. For an integer literal made of an optional sign and one or more
  ASCII digits (no underscores), \<open>int_re\<close>, \<open>int_try\<close> and \<open>real_re\<close> return the
  exact integer the digits denote, whatever its size; \<open>real_try\<close>, which goes
  through a double, returns the same integer when its magnitude is at most \<open>2 ^ 53\<close>.
\<close>

theorem int_literal_exact:
  assumes "is_digits ds" and "sg = [] \<or> sg = ''-'' \<or> sg = ''+''"
  shows "int_re us (PStr (sg @ ds)) = Inr (PInt (signed sg (decimal_sum ds))) \<and>
         int_try us (PStr (sg @ ds)) = Inr (PInt (signed sg (decimal_sum ds))) \<and>
         real_re us (PStr (sg @ ds)) = Inr (PInt (signed sg (decimal_sum ds))) \<and>
         (decimal_sum ds \<le> 2 ^ 53 \<longrightarrow>
            real_try us (PStr (sg @ ds)) = Inr (PInt (signed sg (decimal_sum ds))))"
proof -
  have sg: "is_sign sg" using assms(2) by (simp add: is_sign_def)
  note m = int_literal_matches [OF sg assms(1)]
  note i = py_int_plain(1) [OF sg assms(1), of us]
  have "real_try us (PStr (sg @ ds)) = Inr (PInt (signed sg (decimal_sum ds)))"
    if "decimal_sum ds \<le> 2 ^ 53"
  proof -
    have "py_float_str us (sg @ ds) = Some (Finite (sg = ''-'') (of_nat (dec_value ds)))"
      using py_float_int_literal [OF sg assms(1), of us] round_ratio_exact that
      by (simp add: dec_value_sum)
    then show ?thesis
      by (simp add: real_try_text bind_res_def signed_def dec_value_sum)
  qed
  then show ?thesis
    using m i by (simp add: int_re_text int_try_text real_re_text signed_def dec_value_sum)
qed

theorem int_literal_exact_witness:
  "is_digits ''41053'' \<and> is_digits ''35892482945872302493947939485729'' \<and>
   int_re True (PStr ''-41053'') = Inr (PInt (- 41053)) \<and>
   int_try True (PStr ''-41053'') = Inr (PInt (- 41053)) \<and>
   real_re True (PStr ''-41053'') = Inr (PInt (- 41053)) \<and>
   real_try True (PStr ''-41053'') = Inr (PInt (- 41053)) \<and>
   int_re True (PStr ''35892482945872302493947939485729'') =
     Inr (PInt 35892482945872302493947939485729) \<and>
   real_re True (PStr ''35892482945872302493947939485729'') =
     Inr (PInt 35892482945872302493947939485729)"
  using int_literal_exact [of "''41053''" "''-''" True]
    int_literal_exact [of "''35892482945872302493947939485729''" "[]" True]
  by (simp add: is_digits_def is_digit_def signed_def dec_value_sum [symmetric] dec_value_def
      digit_val_def)

text \<open>
  As stated the claim fails: \<open>real_try\<close> returns the integer of the nearest double for
  the 32-digit literal of the notebooks, and the regular expression of \<open>int_re\<close>
  has no underscore, so an underscore-grouped literal comes back as text even where
  \<open>int\<close> would read it.
\<close>

theorem int_literal_exact_counterexample:
  "int_re False (PStr ''35892482945872302493947939485729'') =
     Inr (PInt 35892482945872302493947939485729) \<and>
   real_try False (PStr ''35892482945872302493947939485729'') =
     Inr (PInt 35892482945872301180401634770944) \<and>
   int_re True (PStr ''1_000'') = Inr (PStr ''1_000'') \<and>
   int_try True (PStr ''1_000'') = Inr (PInt 1000)"
  by (simp add: int_re_def int_try_def real_try_def builtin_defs rx_defs)

section \<open>Checks against conversions\<close>

text \<open>
  Claim C4, as amended. On text, \<open>isint_re\<close> answers True exactly when \<open>int_re\<close>
  returns an integer and \<open>isint_try\<close> exactly when \<open>int_try\<close> does; likewise
  \<open>isfloat_re\<close> with \<open>float_re\<close>, \<open>isfloat_try\<close> with \<open>float_try\<close> and
  \<open>isreal_re\<close> with \<open>real_re\<close>; \<open>isintlike_re\<close> answers True exactly when
  \<open>int_re\<close> returns an integer or \<open>float_re\<close> returns a float equal to its
  truncation. \<open>isreal_try\<close> answers True exactly when \<open>float_try\<close> returns a
  float, and exactly when \<open>real_try\<close> returns a number wherever \<open>real_try\<close>
  returns at all. \<open>isintlike_try\<close> answers True on text that \<open>int_try\<close> turns
  into an integer of magnitude at most \<open>2 ^ 53\<close>, and on text that \<open>int_try\<close>
  does not turn into an integer exactly when \<open>float_try\<close> returns a float equal to
  its truncation. On a number the checks answer by its type, not by whether the
  conversion would succeed: the regex checks on every number, \<open>isint_try\<close> on every
  integer, finite float and NaN, \<open>isfloat_try\<close> and \<open>isreal_try\<close> on every float.
\<close>

theorem predicates_agree_on_text:
  "isint_re (PStr s) = Inr (returns_int (int_re us (PStr s))) \<and>
   isint_try us (PStr s) = Inr (returns_int (int_try us (PStr s))) \<and>
   isfloat_re (PStr s) = Inr (returns_float (float_re us (PStr s))) \<and>
   isfloat_try us (PStr s) = Inr (returns_float (float_try us (PStr s))) \<and>
   isreal_re (PStr s) = Inr (returns_number (real_re us (PStr s))) \<and>
   isintlike_re us (PStr s) =
     Inr (returns_int (int_re us (PStr s)) \<or> returns_intlike_float (float_re us (PStr s))) \<and>
   isint_re (PInt n) = Inr True \<and> isint_re (PFloat f) = Inr False \<and>
   isfloat_re (PInt n) = Inr False \<and> isfloat_re (PFloat f) = Inr True \<and>
   isreal_re (PInt n) = Inr True \<and> isreal_re (PFloat f) = Inr True \<and>
   isreal_try us (PStr s) = Inr (returns_float (float_try us (PStr s))) \<and>
   (\<not> raises (real_try us (PStr s)) \<longrightarrow>
      isreal_try us (PStr s) = Inr (returns_number (real_try us (PStr s)))) \<and>
   (\<not> returns_int (int_try us (PStr s)) \<longrightarrow>
      isintlike_try us (PStr s) = Inr (returns_intlike_float (float_try us (PStr s)))) \<and>
   (int_try us (PStr s) = Inr (PInt k) \<longrightarrow> \<bar>k\<bar> \<le> 2 ^ 53 \<longrightarrow>
      isintlike_try us (PStr s) = Inr True) \<and>
   isint_try us (PInt n) = Inr True \<and> isint_try us (PFloat (Finite neg r)) = Inr False \<and>
   isint_try us (PFloat NaN) = Inr False \<and> isfloat_try us (PFloat f) = Inr True \<and>
   isreal_try us (PFloat f) = Inr True"
proof -
  have i: "match_to_end int_rx s \<Longrightarrow> \<exists>n. py_int_str us s = Some n"
    by (rule int_match_parses)
  have f: "match_to_end float_rx s \<Longrightarrow> \<exists>a. py_float_str us s = Some a"
    by (rule float_match_parses)
  have "match_to_end int_rx s \<Longrightarrow> match_to_end float_rx s"
    by (rule match_to_end_mono [OF int_match_float_match])
  then have if': "\<not> match_to_end float_rx s \<Longrightarrow> \<not> match_to_end int_rx s" by blast
  have 1: "isint_re (PStr s) = Inr (returns_int (int_re us (PStr s)))"
    using i by (auto simp: isint_re_text int_re_text)
  have 2: "isint_try us (PStr s) = Inr (returns_int (int_try us (PStr s)))"
    by (auto simp: isint_try_text int_try_text split: option.splits)
  have 3: "isfloat_re (PStr s) = Inr (returns_float (float_re us (PStr s)))"
    using f by (auto simp: isfloat_re_text float_re_text)
  have 4: "isfloat_try us (PStr s) = Inr (returns_float (float_try us (PStr s)))"
    by (auto simp: isfloat_try_text float_try_text split: option.splits)
  have 5: "isreal_re (PStr s) = Inr (returns_number (real_re us (PStr s)))"
    using i f if' by (auto simp: isreal_re_text real_re_text returns_number_def)
  have 6: "isintlike_re us (PStr s) =
     Inr (returns_int (int_re us (PStr s)) \<or> returns_intlike_float (float_re us (PStr s)))"
    using i f by (auto simp: isintlike_re_text int_re_text float_re_text)
  have 7: "isint_re (PInt n) = Inr True \<and> isint_re (PFloat f) = Inr False \<and>
   isfloat_re (PInt n) = Inr False \<and> isfloat_re (PFloat f) = Inr True \<and>
   isreal_re (PInt n) = Inr True \<and> isreal_re (PFloat f) = Inr True"
    by (simp add: isint_re_def isfloat_re_def isreal_re_def)
  have 8: "isreal_try us (PStr s) = Inr (returns_float (float_try us (PStr s)))"
    by (auto simp: isreal_try_text float_try_text split: option.splits)
  have 9: "\<not> raises (real_try us (PStr s)) \<longrightarrow>
      isreal_try us (PStr s) = Inr (returns_number (real_try us (PStr s)))"
    using isreal_try_real_try by blast
  have 10: "\<not> returns_int (int_try us (PStr s)) \<longrightarrow>
      isintlike_try us (PStr s) = Inr (returns_intlike_float (float_try us (PStr s)))"
    by (auto simp: isintlike_try_text int_try_text float_try_text split: option.splits)
  have 11: "int_try us (PStr s) = Inr (PInt k) \<longrightarrow> \<bar>k\<bar> \<le> 2 ^ 53 \<longrightarrow>
      isintlike_try us (PStr s) = Inr True"
  proof (intro impI)
    assume a: "int_try us (PStr s) = Inr (PInt k)" and b: "\<bar>k\<bar> \<le> 2 ^ 53"
    from a have "py_int_str us s = Some k"
      by (auto simp: int_try_text split: option.splits)
    then show "isintlike_try us (PStr s) = Inr True"
      using b by (rule isintlike_try_small)
  qed
  have 12: "isint_try us (PInt n) = Inr True \<and> isint_try us (PFloat (Finite neg r)) = Inr False \<and>
   isint_try us (PFloat NaN) = Inr False \<and> isfloat_try us (PFloat f) = Inr True \<and>
   isreal_try us (PFloat f) = Inr True"
    by (simp add: isint_try_def isfloat_try_def isreal_try_def)
  from 1 2 3 4 5 6 7 8 9 10 11 12 show ?thesis by (intro conjI) blast+
qed

theorem predicates_agree_on_text_witness:
  "\<not> raises (real_try True (PStr ''-41053'')) \<and>
   isreal_try True (PStr ''-41053'') = Inr True \<and>
   int_try True (PStr ''-41053'') = Inr (PInt (- 41053)) \<and>
   \<bar>- 41053 :: int\<bar> \<le> 2 ^ 53 \<and>
   isintlike_try True (PStr ''-41053'') = Inr True \<and>
   \<not> returns_int (int_try True (PStr ''1.5'')) \<and>
   isintlike_try True (PStr ''1.5'') = Inr False \<and>
   \<not> returns_int (int_try True (PStr ''1.0'')) \<and>
   isintlike_try True (PStr ''1.0'') = Inr True \<and>
   \<not> raises (real_try True (PStr ''1e'')) \<and>
   isreal_try True (PStr ''1e'') = Inr False"
proof -
  have a: "\<not> raises (real_try True (PStr ''-41053''))"
    "int_try True (PStr ''-41053'') = Inr (PInt (- 41053))"
    by (simp_all add: real_try_def int_try_def builtin_defs)
  have b: "\<not> returns_int (int_try True (PStr ''1.5''))"
    "float_try True (PStr ''1.5'') = Inr (PFloat (Finite False (3 / 2)))"
    by (simp_all add: int_try_def float_try_def builtin_defs)
  have c: "\<not> returns_int (int_try True (PStr ''1.0''))"
    "float_try True (PStr ''1.0'') = Inr (PFloat (Finite False 1))"
    by (simp_all add: int_try_def float_try_def builtin_defs)
  have d: "real_try True (PStr ''1e'') = Inr (PStr ''1e'')"
    "float_try True (PStr ''1e'') = Inr (PStr ''1e'')"
    "float_try True (PStr ''-41053'') = Inr (PFloat (Finite True 41053))"
    by (simp_all add: real_try_def float_try_def builtin_defs)
  have e: "real_try True (PStr ''-41053'') = Inr (PInt (- 41053))"
    by (simp add: real_try_def builtin_defs)
  show ?thesis
    using a b c d e
      predicates_agree_on_text [where s = "''-41053''" and us = True and k = "- 41053"]
      predicates_agree_on_text [where s = "''1.5''" and us = True]
      predicates_agree_on_text [where s = "''1.0''" and us = True]
      predicates_agree_on_text [where s = "''1e''" and us = True]
    by (simp add: returns_number_def)
qed

text \<open>
  As stated the claim fails on a float: \<open>to_int(3.0)\<close> succeeds with 3 in both
  families, and both \<open>isint\<close> stand-ins answer False. It fails on text as well, in
  the try/except family: \<open>isintlike_try\<close> answers False on the 32-digit integer
  literal of the notebooks, and \<open>isreal_try\<close> answers True on a literal beyond the
  largest double, on which \<open>real_try\<close> raises.
\<close>

theorem predicates_agree_counterexample:
  "isint_re (PFloat (Finite False 3)) = Inr False \<and>
   int_re False (PFloat (Finite False 3)) = Inr (PInt 3) \<and>
   isint_try False (PFloat (Finite False 3)) = Inr False \<and>
   int_try False (PFloat (Finite False 3)) = Inr (PInt 3) \<and>
   isintlike_try False (PStr ''35892482945872302493947939485729'') = Inr False \<and>
   int_try False (PStr ''35892482945872302493947939485729'') =
     Inr (PInt 35892482945872302493947939485729) \<and>
   isreal_try False (PStr ''1e309'') = Inr True \<and>
   real_try False (PStr ''1e309'') = Inl OverflowError"
  using try_family_missed_cases [of False]
  by (simp add: isint_re_def isint_try_def int_re_def int_try_def catch_def bind_res_def
      ret_int_def)

section \<open>Malformed text\<close>

text \<open>
  Claim C5. A text that the integer grammar of \<open>int\<close> rejects is returned unchanged
  by \<open>int_try\<close> and \<open>int_re\<close>, and a text that the float grammar of \<open>float\<close>
  rejects (the integer grammar rejects it too) is returned unchanged by each of the
  eight conversion functions; no exception leaves them.
\<close>

theorem malformed_text_returned:
  "(py_int_str us s = None \<longrightarrow>
      int_try us (PStr s) = Inr (PStr s) \<and> int_re us (PStr s) = Inr (PStr s)) \<and>
   (py_float_str us s = None \<longrightarrow>
      int_try us (PStr s) = Inr (PStr s) \<and> float_try us (PStr s) = Inr (PStr s) \<and>
      real_try us (PStr s) = Inr (PStr s) \<and> forceint_try us (PStr s) = Inr (PStr s) \<and>
      int_re us (PStr s) = Inr (PStr s) \<and> float_re us (PStr s) = Inr (PStr s) \<and>
      real_re us (PStr s) = Inr (PStr s) \<and> forceint_re us (PStr s) = Inr (PStr s))"
proof (intro conjI impI)
  assume i: "py_int_str us s = None"
  show "int_try us (PStr s) = Inr (PStr s)"
    using i by (simp add: int_try_text)
  show "int_re us (PStr s) = Inr (PStr s)"
    using i int_match_parses [of s us] by (auto simp: int_re_text)
next
  assume a: "py_float_str us s = None"
  have i: "py_int_str us s = None"
    using py_int_float [of us s] a by (cases "py_int_str us s") auto
  have f: "\<not> match_to_end float_rx s"
    using float_match_parses [of s us] a by auto
  have m: "\<not> match_to_end int_rx s"
    using f match_to_end_mono [OF int_match_float_match] by blast
  have m': "\<not> match_to_end forceint_int_rx s"
    using m match_to_end_mono [OF forceint_match_int_match] by blast
  show "int_try us (PStr s) = Inr (PStr s)" using i by (simp add: int_try_text)
  show "float_try us (PStr s) = Inr (PStr s)" using a by (simp add: float_try_text)
  show "real_try us (PStr s) = Inr (PStr s)" using a by (simp add: real_try_text)
  show "forceint_try us (PStr s) = Inr (PStr s)" using a i by (simp add: forceint_try_text)
  show "int_re us (PStr s) = Inr (PStr s)" using m by (simp add: int_re_text)
  show "float_re us (PStr s) = Inr (PStr s)" using f by (simp add: float_re_text)
  show "real_re us (PStr s) = Inr (PStr s)" using f m by (simp add: real_re_text)
  show "forceint_re us (PStr s) = Inr (PStr s)" using f m' by (simp add: forceint_re_text)
qed

theorem malformed_text_returned_witness:
  "py_int_str True ''1__2'' = None \<and> py_float_str True ''1__2'' = None \<and>
   py_float_str False ''not_a_number'' = None \<and> py_float_str True ''1e'' = None \<and>
   int_try True (PStr ''1__2'') = Inr (PStr ''1__2'') \<and>
   float_try True (PStr ''1__2'') = Inr (PStr ''1__2'') \<and>
   int_try False (PStr ''not_a_number'') = Inr (PStr ''not_a_number'') \<and>
   float_try False (PStr ''not_a_number'') = Inr (PStr ''not_a_number'') \<and>
   int_try True (PStr ''1e'') = Inr (PStr ''1e'') \<and>
   float_try True (PStr ''1e'') = Inr (PStr ''1e'')"
proof -
  have 0: "py_int_str True ''1__2'' = None" by (simp add: builtin_defs)
  have 1: "py_float_str True ''1__2'' = None" by (simp add: builtin_defs)
  have 2: "py_float_str False ''not_a_number'' = None" by (simp add: builtin_defs)
  have 3: "py_float_str True ''1e'' = None" by (simp add: builtin_defs)
  show ?thesis
    using 0 1 2 3 malformed_text_returned [of True "''1__2''"]
      malformed_text_returned [of False "''not_a_number''"]
      malformed_text_returned [of True "''1e''"] by simp
qed

section \<open>The decimal point\<close>

text \<open>
  Claim C8, as amended. For digit strings \<open>ip\<close> and \<open>fp\<close>, either of them possibly
  empty, around a decimal point and behind an optional sign: the float pattern of the
  regex family accepts the text exactly when there are digits after the point, and the
  try/except family, which follows the native parser, exactly when there are digits on
  either side. A lone point and a lone sign are rejected by both.
\<close>

theorem float_point_grammar:
  assumes "list_all is_digit ip" and "list_all is_digit fp"
    and "sg = [] \<or> sg = ''-'' \<or> sg = ''+''"
  shows "isfloat_re (PStr (sg @ ip @ ''.'' @ fp)) = Inr (fp \<noteq> []) \<and>
         returns_float (float_re us (PStr (sg @ ip @ ''.'' @ fp))) = (fp \<noteq> []) \<and>
         isfloat_try us (PStr (sg @ ip @ ''.'' @ fp)) = Inr (ip \<noteq> [] \<or> fp \<noteq> []) \<and>
         returns_float (float_try us (PStr (sg @ ip @ ''.'' @ fp))) = (ip \<noteq> [] \<or> fp \<noteq> []) \<and>
         isfloat_re (PStr sg) = Inr False \<and> isfloat_try us (PStr sg) = Inr False \<and>
         float_re us (PStr sg) = Inr (PStr sg) \<and> float_try us (PStr sg) = Inr (PStr sg)"
proof -
  have sg: "is_sign sg" using assms(3) by (simp add: is_sign_def)
  note m = point_literal_match [OF sg assms(1,2)]
  note p = point_literal_parse [OF sg assms(1,2), of us]
  have s1: "\<not> match_to_end float_rx sg"
    using assms(3) by (elim disjE) (simp_all add: rx_defs)
  have s2: "py_float_str us sg = None"
    using assms(3) by (elim disjE) (simp_all add: builtin_defs)
  have a: "isfloat_re (PStr (sg @ ip @ ''.'' @ fp)) = Inr (fp \<noteq> [])"
    using m by (simp add: isfloat_re_text)
  have b: "returns_float (float_re us (PStr (sg @ ip @ ''.'' @ fp))) = (fp \<noteq> [])"
    using m p by (simp add: float_re_text)
  have c: "isfloat_try us (PStr (sg @ ip @ ''.'' @ fp)) = Inr (ip \<noteq> [] \<or> fp \<noteq> [])"
    using p by (simp add: isfloat_try_text)
  have d: "returns_float (float_try us (PStr (sg @ ip @ ''.'' @ fp))) = (ip \<noteq> [] \<or> fp \<noteq> [])"
    using p by (simp add: float_try_text)
  have e: "isfloat_re (PStr sg) = Inr False \<and> isfloat_try us (PStr sg) = Inr False \<and>
         float_re us (PStr sg) = Inr (PStr sg) \<and> float_try us (PStr sg) = Inr (PStr sg)"
    using s1 s2 by (simp add: isfloat_re_text isfloat_try_text float_re_text float_try_text)
  from a b c d e show ?thesis by blast
qed

theorem float_point_grammar_witness:
  "list_all is_digit ''1'' \<and> list_all is_digit '''' \<and> list_all is_digit ''5'' \<and>
   isfloat_re (PStr ''1.'') = Inr False \<and> isfloat_try True (PStr ''1.'') = Inr True \<and>
   isfloat_re (PStr ''.5'') = Inr True \<and> isfloat_try True (PStr ''.5'') = Inr True \<and>
   isfloat_re (PStr ''.'') = Inr False \<and> isfloat_try True (PStr ''.'') = Inr False \<and>
   isfloat_re (PStr ''+'') = Inr False \<and> isfloat_try True (PStr ''+'') = Inr False"
  using float_point_grammar [of "''1''" "''''" "''''" True]
    float_point_grammar [of "''''" "''5''" "''''" True]
    float_point_grammar [of "''''" "''''" "''+''" True]
    float_point_grammar [of "''''" "''''" "''''" True]
  by (simp add: is_digit_def)

text \<open>
  As stated the claim fails on \<open>1.\<close>: the pattern \<^verbatim>\<open>\d*\.?\d+\<close> wants a digit
  after the point, so \<open>isfloat_re\<close> is False and \<open>float_re\<close> returns the text.
\<close>

theorem float_point_grammar_counterexample:
  "isfloat_re (PStr ''1.'') = Inr False \<and> float_re True (PStr ''1.'') = Inr (PStr ''1.'') \<and>
   float_re False (PStr ''1.'') = Inr (PStr ''1.'')"
  by (simp add: isfloat_re_def float_re_def catch_def bind_res_def rx_defs)

end
